theory Spec2Isabelle
  imports Complex_Main "HOL-Library.AList" "HOL-Library.Multiset"
begin

section \<open>Python values, errors and the random source\<close>

text \<open>
  A shallow embedding of \<^verbatim>\<open>scripts/enrich_sample.py\<close>. The script is one module-level
  batch transform over a pandas data frame. Exceptions are values of \<open>error + 'a\<close>
  (\<open>Inl\<close> the exception), the global numpy generator is threaded explicitly, and the
  library functions the script calls but does not define (SHA-256, MD5, the Mersenne
  Twister stream of a seed, the iteration order of a Python \<open>set\<close>) are fields of an
  environment record. The standard output and the disk of the machine are a second
  record. Strings are byte strings, a character outside ASCII being its UTF-8 bytes.
\<close>

datatype error = FileNotFoundError | ParserError | KeyError string | ValueError
  | OverflowError | OSError | UnicodeEncodeError

text \<open>A cell of a data frame: an integer, a string, a boolean or a missing value.\<close>

datatype cell = I int | S string | B bool | Null

fun str_nat :: "nat \<Rightarrow> string" where
  "str_nat n = (if n < 10 then [''0123456789'' ! n]
                else str_nat (n div 10) @ [''0123456789'' ! (n mod 10)])"

declare str_nat.simps [simp del]

definition str_int :: "int \<Rightarrow> string" where
  "str_int i = (if i < 0 then ''-'' @ str_nat (nat (- i)) else str_nat (nat i))"

text \<open>\<^verbatim>\<open>str(v)\<close> on a cell.\<close>

fun py_str :: "cell \<Rightarrow> string" where
  "py_str (I i) = str_int i"
| "py_str (S s) = s"
| "py_str (B b) = (if b then ''True'' else ''False'')"
| "py_str Null = ''nan''"

text \<open>The format specs \<^verbatim>\<open>{n:03d}\<close>, \<^verbatim>\<open>{n:06d}\<close>, \<^verbatim>\<open>{n:07d}\<close>, \<^verbatim>\<open>{n:08d}\<close> on a
  non-negative integer: the decimal digits, left-padded with zeros to the width.\<close>

definition zfill :: "nat \<Rightarrow> string \<Rightarrow> string" where
  "zfill w s = replicate (w - length s) (CHR ''0'') @ s"

text \<open>\<^verbatim>\<open>sep.join(parts)\<close>.\<close>

fun join :: "string \<Rightarrow> string list \<Rightarrow> string" where
  "join sep [] = []"
| "join sep [x] = x"
| "join sep (x # y # ys) = x @ sep @ join sep (y # ys)"

text \<open>
  The global numpy generator after \<^verbatim>\<open>np.random.seed(SEED)\<close>: the stream of raw draws
  of the seed and the number of draws consumed so far.
\<close>

record rng =
  draws :: "nat \<Rightarrow> nat"
  used :: nat

text \<open>
  \<^verbatim>\<open>np.random.randint(low, high)\<close>: an integer in \<open>[low, high)\<close>; numpy raises
  \<^verbatim>\<open>ValueError\<close> when \<open>low >= high\<close>. Every call of the script passes non-negative
  bounds, so they are naturals here.
\<close>

definition randint :: "nat \<Rightarrow> nat \<Rightarrow> rng \<Rightarrow> error + (nat \<times> rng)" where
  "randint low high g =
     (if high \<le> low then Inl ValueError
      else Inr (low + draws g (used g) mod (high - low), g\<lparr>used := used g + 1\<rparr>))"

text \<open>
  \<^verbatim>\<open>np.random.choice(a, size=k, replace=True)\<close>: \<open>k\<close> independent uniform indices
  into \<open>a\<close>; numpy raises \<^verbatim>\<open>ValueError\<close> when \<open>a\<close> is empty and \<open>k > 0\<close>.
\<close>

fun choice :: "'a list \<Rightarrow> nat \<Rightarrow> rng \<Rightarrow> error + ('a list \<times> rng)" where
  "choice a 0 g = Inr ([], g)"
| "choice a (Suc k) g =
     (case randint 0 (length a) g of
        Inl e \<Rightarrow> Inl e
      | Inr (i, g') \<Rightarrow>
          (case choice a k g' of
             Inl e \<Rightarrow> Inl e
           | Inr (ys, g'') \<Rightarrow> Inr (a ! i # ys, g'')))"

text \<open>
  \<^verbatim>\<open>np.random.choice(a, size=k, replace=False)\<close>: the first \<open>k\<close> entries of a
  random permutation of \<open>a\<close>; numpy raises \<^verbatim>\<open>ValueError\<close> when \<open>k > len(a)\<close>. The
  permutation is drawn here one position at a time from the entries not yet taken,
  which reaches exactly the ordered samples without repetition that numpy can return.
\<close>

fun choice_noreplace :: "'a list \<Rightarrow> nat \<Rightarrow> rng \<Rightarrow> error + ('a list \<times> rng)" where
  "choice_noreplace a 0 g = Inr ([], g)"
| "choice_noreplace a (Suc k) g =
     (case randint 0 (length a) g of
        Inl e \<Rightarrow> Inl e
      | Inr (i, g') \<Rightarrow>
          (case choice_noreplace (take i a @ drop (Suc i) a) k g' of
             Inl e \<Rightarrow> Inl e
           | Inr (ys, g'') \<Rightarrow> Inr (a ! i # ys, g'')))"

section \<open>Helpers of the script\<close>

text \<open>\<^verbatim>\<open>email_from_handle\<close>, lines 59-60.\<close>

definition email_from_handle :: "string \<Rightarrow> string \<Rightarrow> string" where
  "email_from_handle handle domain = handle @ ''@'' @ domain"

text \<open>\<^verbatim>\<open>plus_variant\<close>, lines 62-64.\<close>

definition plus_variant :: "string \<Rightarrow> rng \<Rightarrow> error + (string \<times> rng)" where
  "plus_variant handle g =
     (case randint 1 9 g of
        Inl e \<Rightarrow> Inl e
      | Inr (k, g') \<Rightarrow> Inr (handle @ ''+promo'' @ str_nat k, g'))"

text \<open>\<^verbatim>\<open>dot_variant\<close>, lines 66-71.\<close>

definition dot_variant :: "string \<Rightarrow> rng \<Rightarrow> error + (string \<times> rng)" where
  "dot_variant handle g =
     (if CHR ''.'' \<in> set handle \<or> length handle < 3 then Inr (handle, g)
      else (case randint 1 (length handle - 1) g of
              Inl e \<Rightarrow> Inl e
            | Inr (pos, g') \<Rightarrow> Inr (take pos handle @ ''.'' @ drop pos handle, g')))"

text \<open>\<^verbatim>\<open>underscore_variant\<close>, lines 73-77.\<close>

definition underscore_variant :: "string \<Rightarrow> rng \<Rightarrow> error + (string \<times> rng)" where
  "underscore_variant handle g =
     (if CHR ''_'' \<in> set handle \<or> length handle < 3 then Inr (handle, g)
      else (case randint 1 (length handle - 1) g of
              Inl e \<Rightarrow> Inl e
            | Inr (pos, g') \<Rightarrow> Inr (take pos handle @ ''_'' @ drop pos handle, g')))"

text \<open>\<^verbatim>\<open>random_handle\<close>, lines 79-80.\<close>

definition random_handle :: "string \<Rightarrow> nat \<Rightarrow> rng \<Rightarrow> error + (string \<times> rng)" where
  "random_handle base span' g =
     (case randint 0 span' g of
        Inl e \<Rightarrow> Inl e
      | Inr (n, g') \<Rightarrow> Inr (base @ zfill 6 (str_nat n), g'))"


section \<open>Double-precision numbers\<close>

text \<open>
  A finite, non-negative Python \<^verbatim>\<open>float\<close>: the number \<open>significand * 2 ^ exponent\<close>. A
  double has a significand below \<open>2 ^ 53\<close> and an exponent from \<open>-1074\<close> to \<open>971\<close>.
\<close>

record double =
  significand :: nat
  exponent :: int

definition double_val :: "double \<Rightarrow> rat" where
  "double_val x = of_nat (significand x) * 2 powi exponent x"

text \<open>\<^verbatim>\<open>int.bit_length\<close>: the number of binary digits.\<close>

fun bit_length :: "nat \<Rightarrow> nat" where
  "bit_length n = (if n = 0 then 0 else Suc (bit_length (n div 2)))"

declare bit_length.simps [simp del]

text \<open>
  The double nearest to \<open>p * 2 ^ e\<close>, ties to the even significand (the rounding of
  IEEE 754 that \<^verbatim>\<open>float(n)\<close> and the product of two floats apply): the low \<open>s\<close> bits of
  \<open>p\<close> are rounded away, where \<open>s\<close> leaves 53 bits and an exponent of \<open>-1074\<close> at least.
  A result of \<open>2 ^ 1024\<close> or more is the infinity of the format.
\<close>

definition round_double :: "nat \<Rightarrow> int \<Rightarrow> double" where
  "round_double p e =
     (let s = max (bit_length p - 53) (nat (- 1074 - e));
          d = 2 ^ s; q = p div d; r = p mod d in
      \<lparr>significand = (if d < 2 * r \<or> (2 * r = d \<and> odd q) then q + 1 else q),
        exponent = e + int s\<rparr>)"

text \<open>\<^verbatim>\<open>int(x)\<close> on a non-negative float: the fraction is cut off.\<close>

definition int_of_double :: "double \<Rightarrow> nat" where
  "int_of_double x = (if 0 \<le> exponent x then significand x * 2 ^ nat (exponent x)
                      else significand x div 2 ^ nat (- exponent x))"

definition isinf :: "double \<Rightarrow> bool" where
  "isinf x \<longleftrightarrow> 2 ^ 1024 \<le> int_of_double x"

section \<open>Configuration and library environment\<close>

text \<open>The fraud injection knobs of lines 36-39. The literal \<^verbatim>\<open>0.05\<close> is the double
  \<open>7205759403792794 * 2 ^ -57\<close>, a little above one twentieth.\<close>

record config =
  FRACTION_FRAUD_IPS :: double
  CLUSTER_MIN_SIZE :: nat
  CLUSTER_MAX_SIZE :: nat
  EMAIL_VARIANTS_PER_CLUSTER :: nat

definition script_config :: config where
  "script_config = \<lparr>FRACTION_FRAUD_IPS = \<lparr>significand = 7205759403792794, exponent = - 57\<rparr>,
                     CLUSTER_MIN_SIZE = 2,
                     CLUSTER_MAX_SIZE = 5, EMAIL_VARIANTS_PER_CLUSTER = 30\<rparr>"

definition SEED :: nat where
  "SEED = 42"

definition FRAUD_TARGET_ADS :: "string list" where
  "FRAUD_TARGET_ADS = map (\<lambda>n. ''AD'' @ zfill 3 (str_nat n)) [1..<6]"

definition ALL_ADS :: "string list" where
  "ALL_ADS = map (\<lambda>n. ''AD'' @ zfill 3 (str_nat n)) [1..<21]"

definition COUNTRIES :: "string list" where
  "COUNTRIES = [''US'', ''FR'', ''IN'', ''CN'', ''BR'', ''GB'', ''DE'', ''ES'', ''IT'', ''MX'']"

definition CONNECTION_TYPES :: "string list" where
  "CONNECTION_TYPES = [''wifi'', ''4g'', ''5g'']"

text \<open>The baseline email domains of line 113.\<close>

definition domains :: "string list" where
  "domains = [''gmail.com'', ''yahoo.com'', ''outlook.com'', ''proton.me'']"

text \<open>The domain list of the fraud rows, the literal of line 184.\<close>

definition fraud_domains :: "string list" where
  "fraud_domains = [''gmail.com'', ''outlook.com'', ''mail.ru'', ''yahoo.com'']"

text \<open>
  What the script takes from outside its own text:
  \<^item> \<open>sha256_int s\<close> is \<^verbatim>\<open>int(hashlib.sha256(s.encode()).hexdigest(), 16)\<close>;
  \<^item> \<open>md5_hexdigest s\<close> is \<^verbatim>\<open>hashlib.md5(s.encode()).hexdigest()\<close>;
  \<^item> \<open>seeded n\<close> is the stream of raw draws of a numpy generator seeded with \<open>n\<close>;
  \<^item> \<open>str_set_slot xs\<close> and \<open>cell_set_slot xs\<close> give the position at which each
    element is met when a Python \<open>set\<close> built by inserting \<open>xs\<close> is iterated. For strings
    the position depends on the hash seed of the interpreter process;
  \<^item> \<open>getenv\<close> is \<^verbatim>\<open>os.getenv\<close>.
\<close>

record env =
  sha256_int :: "string \<Rightarrow> nat"
  md5_hexdigest :: "string \<Rightarrow> string"
  seeded :: "nat \<Rightarrow> nat \<Rightarrow> nat"
  str_set_slot :: "string list \<Rightarrow> string \<Rightarrow> nat"
  cell_set_slot :: "cell list \<Rightarrow> cell \<Rightarrow> nat"
  getenv :: "string \<Rightarrow> string option"

text \<open>Elements in order of first appearance: \<^verbatim>\<open>Series.unique()\<close>, and the elements a
  \<open>set\<close> holds after inserting a sequence.\<close>

definition unique :: "'a list \<Rightarrow> 'a list" where
  "unique xs = rev (remdups (rev xs))"

text \<open>\<^verbatim>\<open>list(set(xs))\<close>: the distinct elements, in the iteration order of the set.\<close>

definition py_list_of_set :: "('a list \<Rightarrow> 'a \<Rightarrow> nat) \<Rightarrow> 'a list \<Rightarrow> 'a list" where
  "py_list_of_set slot xs = (let d = unique xs in sort_key (slot d) d)"

text \<open>\<^verbatim>\<open>stable_hash_to_int\<close>, lines 47-49.\<close>

definition stable_hash_to_int :: "env \<Rightarrow> cell list \<Rightarrow> nat \<Rightarrow> nat" where
  "stable_hash_to_int E vals modulo' = sha256_int E (join ''|'' (map py_str vals)) mod modulo'"

text \<open>\<^verbatim>\<open>gen_user_id\<close>, lines 51-53, with the default \<^verbatim>\<open>jitter=1000000\<close>.\<close>

definition gen_user_id :: "env \<Rightarrow> cell \<Rightarrow> cell \<Rightarrow> cell \<Rightarrow> string" where
  "gen_user_id E ip device os' =
     ''U'' @ zfill 7 (str_nat (stable_hash_to_int E [ip, device, os'] 1000000))"

text \<open>\<^verbatim>\<open>gen_fingerprint\<close>, lines 55-57.\<close>

definition gen_fingerprint :: "env \<Rightarrow> cell \<Rightarrow> cell \<Rightarrow> cell \<Rightarrow> cell \<Rightarrow> string" where
  "gen_fingerprint E device os' app channel =
     take 16 (md5_hexdigest E
       (py_str device @ ''-'' @ py_str os' @ ''-'' @ py_str app @ ''-'' @ py_str channel))"

section \<open>Data frames\<close>

text \<open>
  A data frame is its columns in order, each a name and the cells of the rows. The index
  is the default \<^verbatim>\<open>RangeIndex\<close> that \<^verbatim>\<open>read_csv\<close> gives, so a row label is a row position.
\<close>

type_synonym dataframe = "(string \<times> cell list) list"

definition nrows :: "dataframe \<Rightarrow> nat" where
  "nrows df = (case df of [] \<Rightarrow> 0 | (_, c) # _ \<Rightarrow> length c)"

text \<open>What \<^verbatim>\<open>read_csv\<close> can return: distinct column names and columns of one length.\<close>

definition rectangular :: "dataframe \<Rightarrow> bool" where
  "rectangular df \<longleftrightarrow> distinct (map fst df) \<and> (\<forall>c \<in> set (map snd df). length c = nrows df)"

text \<open>\<^verbatim>\<open>df[name]\<close> read: \<^verbatim>\<open>KeyError\<close> when there is no such column.\<close>

definition getcol :: "dataframe \<Rightarrow> string \<Rightarrow> error + cell list" where
  "getcol df name = (case map_of df name of None \<Rightarrow> Inl (KeyError name) | Some c \<Rightarrow> Inr c)"

text \<open>\<^verbatim>\<open>df[name] = values\<close>: replaces the column in place when it exists, appends it as
  the last column otherwise. Every assignment of the script passes one value per row.\<close>

definition setcol :: "dataframe \<Rightarrow> string \<Rightarrow> cell list \<Rightarrow> dataframe" where
  "setcol df name vals = AList.update name vals df"

definition cell_at :: "cell list \<Rightarrow> nat \<Rightarrow> cell" where
  "cell_at c i = (if i < length c then c ! i else Null)"

text \<open>\<^verbatim>\<open>df[name].isin(ips)\<close>.\<close>

definition isin :: "cell list \<Rightarrow> cell set \<Rightarrow> bool list" where
  "isin c ips = map (\<lambda>v. v \<in> ips) c"

text \<open>\<^verbatim>\<open>mask.sum()\<close>.\<close>

definition mask_sum :: "bool list \<Rightarrow> nat" where
  "mask_sum msk = length (filter (\<lambda>b. b) msk)"

text \<open>The cells of a column at the rows of the mask, \<^verbatim>\<open>df.loc[mask, name].tolist()\<close>, and
  the index of those rows.\<close>

definition masked :: "bool list \<Rightarrow> 'a list \<Rightarrow> 'a list" where
  "masked msk c = map snd (filter fst (zip msk c))"

definition mask_index :: "bool list \<Rightarrow> nat list" where
  "mask_index msk = filter (\<lambda>i. msk ! i) [0..<length msk]"

text \<open>Writing a sequence of values into the rows of the mask, in row order. The script
  always passes \<^verbatim>\<open>mask.sum()\<close> values; a row for which no value is left keeps its cell.\<close>

fun mask_assign :: "bool list \<Rightarrow> 'a list \<Rightarrow> 'a list \<Rightarrow> 'a list" where
  "mask_assign ms [] vs = []"
| "mask_assign [] (c # cs) vs = c # cs"
| "mask_assign (m # ms) (c # cs) vs =
     (if m then (case vs of [] \<Rightarrow> c # mask_assign ms cs []
                 | v # vs' \<Rightarrow> v # mask_assign ms cs vs')
      else c # mask_assign ms cs vs)"

text \<open>\<^verbatim>\<open>df.loc[mask, name] = values\<close>; on a column that does not exist pandas creates it,
  missing outside the mask.\<close>

definition loc_assign :: "bool list \<Rightarrow> string \<Rightarrow> cell list \<Rightarrow> dataframe \<Rightarrow> dataframe" where
  "loc_assign msk name vals df =
     (case map_of df name of
        None \<Rightarrow> setcol df name (mask_assign msk (map (\<lambda>_. Null) msk) vals)
      | Some c \<Rightarrow> setcol df name (mask_assign msk c vals))"

text \<open>\<^verbatim>\<open>df.loc[mask, name] = value\<close> with one scalar.\<close>

definition loc_fill :: "bool list \<Rightarrow> string \<Rightarrow> cell \<Rightarrow> dataframe \<Rightarrow> dataframe" where
  "loc_fill msk name v df = loc_assign msk name (replicate (mask_sum msk) v) df"

text \<open>
  \<^verbatim>\<open>df.loc[idx, name] = values\<close> with a list of row labels. The script calls it at line 197
  only, on the column \<^verbatim>\<open>country\<close> that line 101 has created; on a missing column, where pandas
  would add one, the frame is returned as it is.
\<close>

definition index_assign :: "nat list \<Rightarrow> string \<Rightarrow> cell list \<Rightarrow> dataframe \<Rightarrow> dataframe" where
  "index_assign idx name vals df =
     (case map_of df name of
        None \<Rightarrow> df
      | Some c \<Rightarrow> setcol df name (fold (\<lambda>(i, v) col. col[i := v]) (zip idx vals) c))"


section \<open>Base enrichment, lines 90-117\<close>

text \<open>The generator right after \<^verbatim>\<open>np.random.seed(n)\<close>, or a fresh \<^verbatim>\<open>RandomState(n)\<close>.\<close>

definition seed_rng :: "env \<Rightarrow> nat \<Rightarrow> rng" where
  "seed_rng E n = \<lparr>draws = seeded E n, used = 0\<rparr>"

text \<open>\<^verbatim>\<open>np.random.choice(a)\<close>: one element.\<close>

definition choice1 :: "'a list \<Rightarrow> rng \<Rightarrow> error + ('a \<times> rng)" where
  "choice1 a g = (case randint 0 (length a) g of
                    Inl e \<Rightarrow> Inl e
                  | Inr (i, g') \<Rightarrow> Inr (a ! i, g'))"

text \<open>The comprehension of lines 95-98. \<^verbatim>\<open>row["ip"]\<close> raises \<^verbatim>\<open>KeyError\<close> on the first
  row when the column is missing; with no row nothing is read.\<close>

definition base_user_ids :: "env \<Rightarrow> dataframe \<Rightarrow> error + string list" where
  "base_user_ids E df =
     (if nrows df = 0 then Inr []
      else (case getcol df ''ip'' of Inl e \<Rightarrow> Inl e | Inr ipc \<Rightarrow>
           (case getcol df ''device'' of Inl e \<Rightarrow> Inl e | Inr dev \<Rightarrow>
           (case getcol df ''os'' of Inl e \<Rightarrow> Inl e | Inr osc \<Rightarrow>
              Inr (map (\<lambda>i. gen_user_id E (cell_at ipc i) (cell_at dev i) (cell_at osc i))
                     [0..<nrows df])))))"

text \<open>The comprehension of lines 104-107.\<close>

definition base_fingerprints :: "env \<Rightarrow> dataframe \<Rightarrow> error + string list" where
  "base_fingerprints E df =
     (if nrows df = 0 then Inr []
      else (case getcol df ''device'' of Inl e \<Rightarrow> Inl e | Inr dev \<Rightarrow>
           (case getcol df ''os'' of Inl e \<Rightarrow> Inl e | Inr osc \<Rightarrow>
           (case getcol df ''app'' of Inl e \<Rightarrow> Inl e | Inr appc \<Rightarrow>
           (case getcol df ''channel'' of Inl e \<Rightarrow> Inl e | Inr chc \<Rightarrow>
              Inr (map (\<lambda>i. gen_fingerprint E (cell_at dev i) (cell_at osc i)
                                (cell_at appc i) (cell_at chc i))
                     [0..<nrows df]))))))"

text \<open>The comprehension of lines 114-117: one domain drawn for each user id, in row order;
  \<^verbatim>\<open>str(uid)[-6:]\<close> is the last six characters.\<close>

fun base_emails :: "string list \<Rightarrow> rng \<Rightarrow> error + (string list \<times> rng)" where
  "base_emails [] g = Inr ([], g)"
| "base_emails (uid # uids) g =
     (case choice1 domains g of
        Inl e \<Rightarrow> Inl e
      | Inr (d, g') \<Rightarrow>
          (case base_emails uids g' of
             Inl e \<Rightarrow> Inl e
           | Inr (ems, g'') \<Rightarrow>
               Inr (email_from_handle (''user'' @ drop (length uid - 6) uid) d # ems, g'')))"

definition base_enrichment :: "env \<Rightarrow> dataframe \<Rightarrow> rng \<Rightarrow> error + (dataframe \<times> rng)" where
  "base_enrichment E df g =
     (let n = nrows df in
      (case choice ALL_ADS n g of Inl e \<Rightarrow> Inl e | Inr (ads, g1) \<Rightarrow>
      (let df1 = setcol df ''ad_id'' (map S ads) in
      (case base_user_ids E df1 of Inl e \<Rightarrow> Inl e | Inr uids \<Rightarrow>
      (let df2 = setcol df1 ''user_id'' (map S uids) in
      (case choice COUNTRIES n g1 of Inl e \<Rightarrow> Inl e | Inr (ctr, g2) \<Rightarrow>
      (let df3 = setcol df2 ''country'' (map S ctr) in
      (case base_fingerprints E df3 of Inl e \<Rightarrow> Inl e | Inr fps \<Rightarrow>
      (let df4 = setcol df3 ''device_fingerprint'' (map S fps) in
      (case choice CONNECTION_TYPES n g2 of Inl e \<Rightarrow> Inl e | Inr (cts, g3) \<Rightarrow>
      (let df5 = setcol df4 ''connection_type'' (map S cts) in
      (case getcol df5 ''user_id'' of Inl e \<Rightarrow> Inl e | Inr uidc \<Rightarrow>
      (case base_emails (map py_str uidc) g3 of Inl e \<Rightarrow> Inl e | Inr (ems, g4) \<Rightarrow>
         Inr (setcol df5 ''email'' (map S ems), g4))))))))))))))"

section \<open>Hub selection and cluster building, lines 119-135\<close>

text \<open>Line 122, \<^verbatim>\<open>max(1, int(len(unique_ips) * FRACTION_FRAUD_IPS))\<close>: the count is
  converted to a float, the product of the two floats is rounded to a float, and
  \<^verbatim>\<open>int\<close> truncates it. A count too large for a float and an infinite product raise
  \<^verbatim>\<open>OverflowError\<close>.\<close>

definition num_hub_ips :: "double \<Rightarrow> nat \<Rightarrow> error + nat" where
  "num_hub_ips f n =
     (let a = round_double n 0 in
      if isinf a then Inl OverflowError
      else (let x = round_double (significand a * significand f) (exponent a + exponent f) in
            if isinf x then Inl OverflowError else Inr (max 1 (int_of_double x))))"

text \<open>Lines 121-126: the hub IPs as \<^verbatim>\<open>hub_ips_list\<close>.\<close>

definition select_hubs :: "config \<Rightarrow> env \<Rightarrow> dataframe \<Rightarrow> rng \<Rightarrow> error + (cell list \<times> rng)" where
  "select_hubs cfg E df g =
     (case getcol df ''ip'' of Inl e \<Rightarrow> Inl e | Inr ipc \<Rightarrow>
        (let unique_ips = unique ipc in
         (case num_hub_ips (FRACTION_FRAUD_IPS cfg) (length unique_ips) of
            Inl e \<Rightarrow> Inl e | Inr k \<Rightarrow>
         (case choice_noreplace unique_ips k g of Inl e \<Rightarrow> Inl e | Inr (hub_ips, g') \<Rightarrow>
            Inr (py_list_of_set (cell_set_slot E) hub_ips, g')))))"

record cluster =
  cluster_id :: nat
  ips :: "cell list"

text \<open>The \<^verbatim>\<open>while\<close> loop of lines 130-135. With a minimum size of zero the loop need not
  end, so not returning is the value \<open>None\<close>.\<close>

partial_function (option) cluster_loop ::
  "nat \<Rightarrow> nat \<Rightarrow> cell list \<Rightarrow> nat \<Rightarrow> nat \<Rightarrow> cluster list \<Rightarrow> rng
     \<Rightarrow> (error + (cluster list \<times> rng)) option" where
  "cluster_loop m M hub_ips_list cursor cid clusters g =
     (if cursor < length hub_ips_list then
        (case randint m (M + 1) g of
           Inl e \<Rightarrow> Some (Inl e)
         | Inr (size', g') \<Rightarrow>
             cluster_loop m M hub_ips_list (cursor + size') (cid + 1)
               (clusters @ [\<lparr>cluster_id = cid,
                             ips = take size' (drop cursor hub_ips_list)\<rparr>]) g')
      else Some (Inr (clusters, g)))"

definition build_clusters ::
  "nat \<Rightarrow> nat \<Rightarrow> cell list \<Rightarrow> rng \<Rightarrow> (error + (cluster list \<times> rng)) option" where
  "build_clusters m M hub_ips_list g = cluster_loop m M hub_ips_list 0 1 [] g"

section \<open>Per-cluster pools, target ads and fingerprints, lines 137-159\<close>

text \<open>The loop of lines 141-146.\<close>

fun pool_loop :: "string list \<Rightarrow> string list \<Rightarrow> rng \<Rightarrow> error + (string list \<times> rng)" where
  "pool_loop [] pool g = Inr (pool, g)"
| "pool_loop (h # hs) pool g =
     (case plus_variant h g of Inl e \<Rightarrow> Inl e | Inr (p, g1) \<Rightarrow>
     (case dot_variant h g1 of Inl e \<Rightarrow> Inl e | Inr (d, g2) \<Rightarrow>
     (case underscore_variant h g2 of Inl e \<Rightarrow> Inl e | Inr (u, g3) \<Rightarrow>
        pool_loop hs (pool @ [h, p, d, u]) g3)))"

text \<open>\<^verbatim>\<open>build_email_pool\<close>, lines 138-147.\<close>

definition build_email_pool ::
  "env \<Rightarrow> string \<Rightarrow> nat \<Rightarrow> rng \<Rightarrow> error + (string list \<times> rng)" where
  "build_email_pool E base_root pool_size g =
     (let base_handles = map (\<lambda>i. base_root @ zfill 3 (str_nat i)) [0..<pool_size] in
      case pool_loop base_handles [] g of
        Inl e \<Rightarrow> Inl e
      | Inr (pool, g') \<Rightarrow> Inr (py_list_of_set (str_set_slot E) pool, g'))"

text \<open>A dict comprehension \<^verbatim>\<open>{c["cluster_id"]: f(c) for c in clusters}\<close> whose values
  draw from the generator: the entries are stored in list order.\<close>

fun dict_comprehension ::
  "(cluster \<Rightarrow> rng \<Rightarrow> error + ('v \<times> rng)) \<Rightarrow> cluster list \<Rightarrow> (nat \<rightharpoonup> 'v) \<Rightarrow> rng
     \<Rightarrow> error + ((nat \<rightharpoonup> 'v) \<times> rng)" where
  "dict_comprehension f [] d g = Inr (d, g)"
| "dict_comprehension f (c # cs) d g =
     (case f c g of
        Inl e \<Rightarrow> Inl e
      | Inr (v, g') \<Rightarrow> dict_comprehension f cs (d(cluster_id c \<mapsto> v)) g')"

text \<open>The value of line 153: the size is drawn first, then the sample.\<close>

definition target_ads :: "rng \<Rightarrow> error + (string list \<times> rng)" where
  "target_ads g =
     (case randint 1 4 g of
        Inl e \<Rightarrow> Inl e
      | Inr (k, g') \<Rightarrow> choice_noreplace FRAUD_TARGET_ADS k g')"

text \<open>The value of line 157.\<close>

definition cluster_fingerprint :: "env \<Rightarrow> cell list \<Rightarrow> string" where
  "cluster_fingerprint E block =
     ''fp_'' @ zfill 8 (str_nat (stable_hash_to_int E block (10 ^ 8)))"


section \<open>The override loop, lines 161-197\<close>

text \<open>The comprehension of line 189.\<close>

fun random_handles :: "nat \<Rightarrow> rng \<Rightarrow> error + (string list \<times> rng)" where
  "random_handles 0 g = Inr ([], g)"
| "random_handles (Suc k) g =
     (case random_handle ''u'' 999999 g of Inl e \<Rightarrow> Inl e | Inr (h, g') \<Rightarrow>
     (case random_handles k g' of Inl e \<Rightarrow> Inl e | Inr (hs, g'') \<Rightarrow>
        Inr (h # hs, g'')))"

text \<open>Python's \<^verbatim>\<open>round\<close>: to the nearest integer, a tie to the even one.\<close>

definition py_round :: "rat \<Rightarrow> int" where
  "py_round q =
     (let f = \<lfloor>q\<rfloor>; r = q - of_int f in
      if r < 1 / 2 then f else if 1 / 2 < r then f + 1 else if even f then f else f + 1)"

text \<open>\<^verbatim>\<open>df.loc[mask].sample(frac=0.30, random_state=SEED).index\<close>, line 196: pandas
  takes \<^verbatim>\<open>round(frac * len)\<close> rows without replacement with a generator of its own,
  seeded afresh.\<close>

definition sample_index :: "env \<Rightarrow> nat list \<Rightarrow> error + nat list" where
  "sample_index E idx =
     (case choice_noreplace idx (nat (py_round (3 / 10 * of_nat (length idx))))
             (seed_rng E SEED) of
        Inl e \<Rightarrow> Inl e
      | Inr (sub_idx, _) \<Rightarrow> Inr sub_idx)"

text \<open>A dict read \<^verbatim>\<open>d[cid]\<close>.\<close>

definition lookup :: "(nat \<rightharpoonup> 'v) \<Rightarrow> nat \<Rightarrow> error + 'v" where
  "lookup d cid = (case d cid of None \<Rightarrow> Inl (KeyError (str_nat cid)) | Some v \<Rightarrow> Inr v)"

text \<open>\<^verbatim>\<open>mask.any()\<close>.\<close>

definition mask_any :: "bool list \<Rightarrow> bool" where
  "mask_any msk \<longleftrightarrow> (\<exists>b \<in> set msk. b)"

text \<open>The overrides of lines 172-197 on the rows of a mask that is not empty.\<close>

definition override_rows ::
  "env \<Rightarrow> (nat \<rightharpoonup> string list) \<Rightarrow> (nat \<rightharpoonup> string list) \<Rightarrow> (nat \<rightharpoonup> string)
     \<Rightarrow> nat \<Rightarrow> bool list \<Rightarrow> dataframe \<Rightarrow> rng \<Rightarrow> error + (dataframe \<times> rng)" where
  "override_rows E cluster_email_pools cluster_target_ads cluster_fingerprints cid msk df g =
      (let k = mask_sum msk;
           df1 = loc_fill msk ''fraud_cluster_id'' (I (int cid)) df;
           df2 = loc_fill msk ''is_synthetic_fraud'' (B True) df1 in
      (case lookup cluster_target_ads cid of Inl e \<Rightarrow> Inl e | Inr tads \<Rightarrow>
      (case choice tads k g of Inl e \<Rightarrow> Inl e | Inr (ads, g1) \<Rightarrow>
      (let df3 = loc_assign msk ''ad_id'' (map S ads) df2 in
      (case lookup cluster_fingerprints cid of Inl e \<Rightarrow> Inl e | Inr fp \<Rightarrow>
      (let df4 = loc_fill msk ''device_fingerprint'' (S fp) df3 in
      (case lookup cluster_email_pools cid of Inl e \<Rightarrow> Inl e | Inr pool \<Rightarrow>
      (case choice pool k g1 of Inl e \<Rightarrow> Inl e | Inr (handles, g2) \<Rightarrow>
      (case choice fraud_domains k g2 of Inl e \<Rightarrow> Inl e | Inr (doms, g3) \<Rightarrow>
      (let df5 = loc_assign msk ''email''
                   (map (\<lambda>(h, d). S (email_from_handle h d)) (zip handles doms)) df4 in
      (case random_handles (max 50 (k div 10)) g3 of Inl e \<Rightarrow> Inl e | Inr (base_users, g4) \<Rightarrow>
      (case getcol df5 ''user_id'' of Inl e \<Rightarrow> Inl e | Inr uidc \<Rightarrow>
      (case choice (map S base_users @ masked msk uidc) k g4 of
         Inl e \<Rightarrow> Inl e | Inr (uids, g5) \<Rightarrow>
      (let df6 = loc_assign msk ''user_id'' uids df5 in
      (case sample_index E (mask_index msk) of Inl e \<Rightarrow> Inl e | Inr sub_idx \<Rightarrow>
      (case choice COUNTRIES (length sub_idx) g5 of Inl e \<Rightarrow> Inl e | Inr (ctr, g6) \<Rightarrow>
         Inr (index_assign sub_idx ''country'' (map S ctr) df6, g6)))))))))))))))))"

text \<open>The body of the loop, lines 166-197, for one cluster: a cluster with no row is
  skipped.\<close>

definition override_cluster ::
  "env \<Rightarrow> (nat \<rightharpoonup> string list) \<Rightarrow> (nat \<rightharpoonup> string list) \<Rightarrow> (nat \<rightharpoonup> string)
     \<Rightarrow> cluster \<Rightarrow> dataframe \<Rightarrow> rng \<Rightarrow> error + (dataframe \<times> rng)" where
  "override_cluster E cluster_email_pools cluster_target_ads cluster_fingerprints c df g =
     (case getcol df ''ip'' of Inl e \<Rightarrow> Inl e | Inr ipc \<Rightarrow>
        (let msk = isin ipc (set (ips c)) in
         if \<not> mask_any msk then Inr (df, g)
         else override_rows E cluster_email_pools cluster_target_ads cluster_fingerprints
                (cluster_id c) msk df g))"

text \<open>The \<^verbatim>\<open>for c in clusters\<close> loop of line 165.\<close>

fun override_loop ::
  "env \<Rightarrow> (nat \<rightharpoonup> string list) \<Rightarrow> (nat \<rightharpoonup> string list) \<Rightarrow> (nat \<rightharpoonup> string)
     \<Rightarrow> cluster list \<Rightarrow> dataframe \<Rightarrow> rng \<Rightarrow> error + (dataframe \<times> rng)" where
  "override_loop E pools tads fps [] df g = Inr (df, g)"
| "override_loop E pools tads fps (c # cs) df g =
     (case override_cluster E pools tads fps c df g of
        Inl e \<Rightarrow> Inl e
      | Inr (df', g') \<Rightarrow> override_loop E pools tads fps cs df' g')"

section \<open>The whole transform\<close>

text \<open>What a run builds: the frame after the base enrichment (line 117), the hub list,
  the clusters, the three per-cluster dicts and the frame that is saved.\<close>

record run =
  run_base_df :: dataframe
  run_hub_ips :: "cell list"
  run_clusters :: "cluster list"
  run_email_pools :: "nat \<rightharpoonup> string list"
  run_target_ads :: "nat \<rightharpoonup> string list"
  run_fingerprints :: "nat \<rightharpoonup> string"
  run_df :: dataframe

text \<open>Lines 90-197 on the frame that was read.\<close>

definition enrich :: "config \<Rightarrow> env \<Rightarrow> dataframe \<Rightarrow> (error + run) option" where
  "enrich cfg E df =
     (case base_enrichment E df (seed_rng E SEED) of
        Inl e \<Rightarrow> Some (Inl e) | Inr (df1, g1) \<Rightarrow>
     (case select_hubs cfg E df1 g1 of
        Inl e \<Rightarrow> Some (Inl e) | Inr (hub_ips_list, g2) \<Rightarrow>
     (case build_clusters (CLUSTER_MIN_SIZE cfg) (CLUSTER_MAX_SIZE cfg) hub_ips_list g2 of
        None \<Rightarrow> None | Some (Inl e) \<Rightarrow> Some (Inl e) | Some (Inr (clusters, g3)) \<Rightarrow>
     (case dict_comprehension
             (\<lambda>c. build_email_pool E ''frauder'' (EMAIL_VARIANTS_PER_CLUSTER cfg))
             clusters Map.empty g3 of
        Inl e \<Rightarrow> Some (Inl e) | Inr (pools, g4) \<Rightarrow>
     (case dict_comprehension (\<lambda>c. target_ads) clusters Map.empty g4 of
        Inl e \<Rightarrow> Some (Inl e) | Inr (tads, g5) \<Rightarrow>
     (let fps = fold (\<lambda>c d. d(cluster_id c \<mapsto> cluster_fingerprint E (ips c)))
                  clusters Map.empty;
          df2 = setcol df1 ''fraud_cluster_id'' (replicate (nrows df1) (I 0));
          df3 = setcol df2 ''is_synthetic_fraud'' (replicate (nrows df2) (B False)) in
     (case override_loop E pools tads fps clusters df3 g5 of
        Inl e \<Rightarrow> Some (Inl e)
      | Inr (df4, g6) \<Rightarrow>
          Some (Inr \<lparr>run_base_df = df1, run_hub_ips = hub_ips_list,
                      run_clusters = clusters, run_email_pools = pools,
                      run_target_ads = tads, run_fingerprints = fps,
                      run_df = df4\<rparr>))))))))"

text \<open>The files: a path holds the table that \<^verbatim>\<open>read_csv\<close> would parse from it.\<close>

type_synonym files = "string \<rightharpoonup> dataframe"

definition INPUT_CSV :: "env \<Rightarrow> string" where
  "INPUT_CSV E = (case getenv E ''KAGGLE_FILE'' of
                    None \<Rightarrow> ''data/train_sample.csv'' | Some p \<Rightarrow> p)"

definition OUTPUT_CSV :: string where
  "OUTPUT_CSV = ''data/train_sample_enriched.csv''"

text \<open>\<^verbatim>\<open>pd.read_csv\<close>, line 84: a missing file and a file that does not parse to a table
  raise.\<close>

definition read_csv :: "files \<Rightarrow> string \<Rightarrow> error + dataframe" where
  "read_csv fs path =
     (case fs path of
        None \<Rightarrow> Inl FileNotFoundError
      | Some t \<Rightarrow> if t \<noteq> [] \<and> rectangular t then Inr t else Inl ParserError)"

text \<open>
  The machine the script runs on:
  \<^item> \<open>stdout_encodes text\<close> tells whether the encoding of \<^verbatim>\<open>sys.stdout\<close> has every
    character of the text; \<^verbatim>\<open>print\<close> raises \<^verbatim>\<open>UnicodeEncodeError\<close> otherwise;
  \<^item> \<open>path_str p\<close> is \<^verbatim>\<open>str\<close> of the \<^verbatim>\<open>Path\<close> of the file \<open>p\<close>;
  \<^item> \<open>save_fault\<close> is what happens to the write of line 201: nothing, or \<^verbatim>\<open>mkdir\<close> or the
    opening of the file fails, or the write fails after the file has been opened, and then
    the path holds a truncated file, given by the table that parses from it.
\<close>

datatype fault = NoFault | OpenFault | WriteFault dataframe

record host =
  stdout_encodes :: "string \<Rightarrow> bool"
  path_str :: "string \<Rightarrow> string"
  save_fault :: fault

text \<open>\<^verbatim>\<open>print(text)\<close>.\<close>

definition py_print :: "host \<Rightarrow> string \<Rightarrow> error + unit" where
  "py_print H line = (if stdout_encodes H line then Inr () else Inl UnicodeEncodeError)"

text \<open>The format spec \<^verbatim>\<open>{n:,}\<close>: the decimal digits in groups of three.\<close>

fun thousands :: "nat \<Rightarrow> string" where
  "thousands n = (if n < 1000 then str_nat n
                  else thousands (n div 1000) @ '','' @ zfill 3 (str_nat (n mod 1000)))"

declare thousands.simps [simp del]

text \<open>\<^verbatim>\<open>repr(v)\<close> of a cell; of a string that has no quote, backslash or control
  character, as an email of the script has none.\<close>

fun py_repr :: "cell \<Rightarrow> string" where
  "py_repr (S s) = [CHR 0x27] @ s @ [CHR 0x27]"
| "py_repr c = py_str c"

text \<open>The texts of the \<^verbatim>\<open>print\<close> calls of lines 83, 86 and 202; the last starts with the
  character U+2705.\<close>

definition reading_text :: "env \<Rightarrow> host \<Rightarrow> string" where
  "reading_text E H = ''Reading: '' @ path_str H (INPUT_CSV E)"

definition rows_text :: "nat \<Rightarrow> string" where
  "rows_text n = ''Rows: '' @ thousands n"

definition saved_text :: "host \<Rightarrow> string" where
  "saved_text H = [CHR 0xE2, CHR 0x9C, CHR 0x85] @ '' Saved enriched sample: ''
                    @ path_str H OUTPUT_CSV"

text \<open>Lines 83-197: the frame that is to be saved.\<close>

definition before_save :: "config \<Rightarrow> env \<Rightarrow> host \<Rightarrow> files \<Rightarrow> (error + dataframe) option" where
  "before_save cfg E H fs =
     (case py_print H (reading_text E H) of
        Inl e \<Rightarrow> Some (Inl e)
      | Inr _ \<Rightarrow>
     (case read_csv fs (INPUT_CSV E) of
        Inl e \<Rightarrow> Some (Inl e)
      | Inr df \<Rightarrow>
     (case py_print H (rows_text (nrows df)) of
        Inl e \<Rightarrow> Some (Inl e)
      | Inr _ \<Rightarrow>
     (case enrich cfg E df of
        None \<Rightarrow> None
      | Some (Inl e) \<Rightarrow> Some (Inl e)
      | Some (Inr r) \<Rightarrow> Some (Inr (run_df r))))))"

text \<open>Lines 200-201, \<^verbatim>\<open>DATA.mkdir(...)\<close> and \<^verbatim>\<open>df.to_csv(OUTPUT_CSV, index=False)\<close>, the only
  write of the script: the exception, if any, and the files after it. The directory that
  \<^verbatim>\<open>mkdir\<close> may create is no file.\<close>

definition to_csv :: "host \<Rightarrow> dataframe \<Rightarrow> files \<Rightarrow> error option \<times> files" where
  "to_csv H df fs =
     (case save_fault H of
        NoFault \<Rightarrow> (None, fs(OUTPUT_CSV \<mapsto> df))
      | OpenFault \<Rightarrow> (Some OSError, fs)
      | WriteFault t \<Rightarrow> (Some OSError, fs(OUTPUT_CSV \<mapsto> t)))"

text \<open>\<^verbatim>\<open>df[name] > 0\<close> on a cell of the integer column \<^verbatim>\<open>fraud_cluster_id\<close>.\<close>

fun gt_zero :: "cell \<Rightarrow> bool" where
  "gt_zero (I i) = (0 < i)"
| "gt_zero c = False"

text \<open>The summary of lines 205-210.\<close>

definition summary :: "host \<Rightarrow> dataframe \<Rightarrow> error + unit" where
  "summary H df =
     (case getcol df ''fraud_cluster_id'' of Inl e \<Rightarrow> Inl e | Inr ids \<Rightarrow>
     (let msk = map gt_zero ids in
     (case py_print H (CHR 0x0A # ''---- Summary ----'') of Inl e \<Rightarrow> Inl e | Inr _ \<Rightarrow>
     (case py_print H (''Rows in fraud clusters: '' @ str_nat (mask_sum msk)) of
        Inl e \<Rightarrow> Inl e | Inr _ \<Rightarrow>
     (case py_print H (''Unique fraud clusters : ''
                        @ str_nat (length (unique (masked msk ids)))) of
        Inl e \<Rightarrow> Inl e | Inr _ \<Rightarrow>
     (case py_print H ''Example emails in fraud clusters:'' of Inl e \<Rightarrow> Inl e | Inr _ \<Rightarrow>
     (case getcol df ''email'' of Inl e \<Rightarrow> Inl e | Inr ems \<Rightarrow>
        py_print H (''['' @ join '', '' (map py_repr (take 5 (masked msk ems))) @ '']''))))))))"

text \<open>The script: the exception it ends with, if any, and the files it leaves.\<close>

definition main :: "config \<Rightarrow> env \<Rightarrow> host \<Rightarrow> files \<Rightarrow> (error option \<times> files) option" where
  "main cfg E H fs =
     (case before_save cfg E H fs of
        None \<Rightarrow> None
      | Some (Inl e) \<Rightarrow> Some (Some e, fs)
      | Some (Inr df) \<Rightarrow>
     (case to_csv H df fs of
        (Some e, fs') \<Rightarrow> Some (Some e, fs')
      | (None, fs') \<Rightarrow>
     (case py_print H (saved_text H) of
        Inl e \<Rightarrow> Some (Some e, fs')
      | Inr _ \<Rightarrow>
     (case summary H df of
        Inl e \<Rightarrow> Some (Some e, fs')
      | Inr _ \<Rightarrow> Some (None, fs')))))"


section \<open>What a row of a cluster carries\<close>

text \<open>The label, the flag, the fingerprint and the email of a row that the loop body
  has overridden for the cluster \<open>c\<close>.\<close>

definition cluster_row ::
  "(nat \<rightharpoonup> string list) \<Rightarrow> (nat \<rightharpoonup> string) \<Rightarrow> cluster
     \<Rightarrow> cell \<Rightarrow> cell \<Rightarrow> cell \<Rightarrow> cell \<Rightarrow> bool" where
  "cluster_row pools fps c label flag fingerprint email \<longleftrightarrow>
     label = I (int (cluster_id c)) \<and> flag = B True \<and>
     (\<exists>fp. fps (cluster_id c) = Some fp \<and> fingerprint = S fp) \<and>
     (\<exists>pool h d. pools (cluster_id c) = Some pool \<and> h \<in> set pool \<and>
        d \<in> set fraud_domains \<and> email = S (email_from_handle h d))"

text \<open>Every column of a frame holds \<open>n\<close> cells.\<close>

definition columns_of_length :: "nat \<Rightarrow> dataframe \<Rightarrow> bool" where
  "columns_of_length n df \<longleftrightarrow> (\<forall>k c. map_of df k = Some c \<longrightarrow> length c = n)"

section \<open>Example inputs\<close>

text \<open>A library environment for running the definitions on small inputs: every raw draw
  is zero and a set is iterated in insertion order.\<close>

definition example_env :: env where
  "example_env = \<lparr>sha256_int = (\<lambda>s. 7), md5_hexdigest = (\<lambda>s. s),
                   seeded = (\<lambda>n i. 0), str_set_slot = (\<lambda>d x. 0),
                   cell_set_slot = (\<lambda>d x. 0), getenv = Map.empty\<rparr>"

text \<open>A machine with a UTF-8 terminal and no fault, and one with an ASCII terminal.\<close>

definition example_host :: host where
  "example_host = \<lparr>stdout_encodes = (\<lambda>s. True), path_str = (\<lambda>p. ''/repo/'' @ p),
                    save_fault = NoFault\<rparr>"

definition ascii_host :: host where
  "ascii_host = example_host\<lparr>stdout_encodes := list_all (\<lambda>c. of_char c < (128 :: nat))\<rparr>"

definition example_rng :: rng where
  "example_rng = \<lparr>draws = (\<lambda>i. 0), used = 0\<rparr>"

text \<open>Two clicks from two IPs, and the knobs of the script with a pool of one base
  handle for each cluster.\<close>

definition example_df :: dataframe where
  "example_df = [(''ip'', [I 10, I 20]), (''app'', [I 3, I 3]), (''device'', [I 1, I 1]),
                 (''os'', [I 13, I 17]), (''channel'', [I 379, I 379]),
                 (''click_time'', [S ''2017-11-07 09:30:38'', S ''2017-11-07 13:40:27'']),
                 (''attributed_time'', [Null, Null]), (''is_attributed'', [I 0, I 0])]"

definition example_config :: config where
  "example_config = script_config\<lparr>EMAIL_VARIANTS_PER_CLUSTER := 1\<rparr>"

text \<open>The frame of the example after the base enrichment, and the frame its run saves.\<close>

definition example_base_df :: dataframe where
  "example_base_df = example_df @
     [(''ad_id'', [S ''AD001'', S ''AD001'']),
      (''user_id'', [S ''U0000007'', S ''U0000007'']),
      (''country'', [S ''US'', S ''US'']),
      (''device_fingerprint'', [S ''1-13-3-379'', S ''1-17-3-379'']),
      (''connection_type'', [S ''wifi'', S ''wifi'']),
      (''email'', [S ''user000007@gmail.com'', S ''user000007@gmail.com''])]"

definition example_out_df :: dataframe where
  "example_out_df = example_df @
     [(''ad_id'', [S ''AD001'', S ''AD001'']),
      (''user_id'', [S ''u000000'', S ''U0000007'']),
      (''country'', [S ''US'', S ''US'']),
      (''device_fingerprint'', [S ''fp_00000007'', S ''1-17-3-379'']),
      (''connection_type'', [S ''wifi'', S ''wifi'']),
      (''email'', [S ''frauder000@gmail.com'', S ''user000007@gmail.com'']),
      (''fraud_cluster_id'', [I 1, I 0]),
      (''is_synthetic_fraud'', [B True, B False])]"

text \<open>What the run on the example builds.\<close>

definition example_pool :: "string list" where
  "example_pool = [''frauder000'', ''frauder000+promo1'', ''f.rauder000'', ''f_rauder000'']"

definition example_run :: run where
  "example_run = \<lparr>run_base_df = example_base_df, run_hub_ips = [I 10],
                   run_clusters = [\<lparr>cluster_id = 1, ips = [I 10]\<rparr>],
                   run_email_pools = [1 \<mapsto> example_pool],
                   run_target_ads = [1 \<mapsto> [''AD001'']],
                   run_fingerprints = [1 \<mapsto> ''fp_00000007''],
                   run_df = example_out_df\<rparr>"

text \<open>An environment whose hash reads the first character of its input, to tell two
  hash inputs apart.\<close>

definition probe_env :: env where
  "probe_env = example_env\<lparr>sha256_int := (\<lambda>s. case s of [] \<Rightarrow> 0 | c # _ \<Rightarrow> of_char c)\<rparr>"

text \<open>The same environment with another iteration order for a set of strings, and
  what the run on the example builds with it.\<close>

definition reordered_env :: env where
  "reordered_env = example_env\<lparr>str_set_slot := (\<lambda>d x. if x = ''frauder000'' then 1 else 0)\<rparr>"

definition reordered_pool :: "string list" where
  "reordered_pool = [''frauder000+promo1'', ''f.rauder000'', ''f_rauder000'', ''frauder000'']"

definition reordered_out_df :: dataframe where
  "reordered_out_df = example_df @
     [(''ad_id'', [S ''AD001'', S ''AD001'']),
      (''user_id'', [S ''u000000'', S ''U0000007'']),
      (''country'', [S ''US'', S ''US'']),
      (''device_fingerprint'', [S ''fp_00000007'', S ''1-17-3-379'']),
      (''connection_type'', [S ''wifi'', S ''wifi'']),
      (''email'', [S ''frauder000+promo1@gmail.com'', S ''user000007@gmail.com'']),
      (''fraud_cluster_id'', [I 1, I 0]),
      (''is_synthetic_fraud'', [B True, B False])]"

definition reordered_run :: run where
  "reordered_run = \<lparr>run_base_df = example_base_df, run_hub_ips = [I 10],
                   run_clusters = [\<lparr>cluster_id = 1, ips = [I 10]\<rparr>],
                   run_email_pools = [1 \<mapsto> reordered_pool],
                   run_target_ads = [1 \<mapsto> [''AD001'']],
                   run_fingerprints = [1 \<mapsto> ''fp_00000007''],
                   run_df = reordered_out_df\<rparr>"

section \<open>The random source and the email variants\<close>

lemma randint_range:
  "low < high \<Longrightarrow>
     \<exists>k. randint low high g = Inr (k, g\<lparr>used := used g + 1\<rparr>) \<and> low \<le> k \<and> k < high"
  by (simp add: randint_def) (metis add.commute less_diff_conv mod_less_divisor zero_less_diff)

lemma insert_char_props:
  assumes "c \<notin> set h" "1 \<le> p" "p < length h"
  shows "hd (take p h @ [c] @ drop p h) = hd h"
    and "last (take p h @ [c] @ drop p h) = last h"
    and "length (take p h @ [c] @ drop p h) = Suc (length h)"
    and "count_list (take p h @ [c] @ drop p h) c = 1"
    and "(take p h @ [c] @ drop p h) ! p = c"
    and "take p (take p h @ [c] @ drop p h) @ drop (Suc p) (take p h @ [c] @ drop p h) = h"
proof -
  from assms have ne: "take p h \<noteq> []" "drop p h \<noteq> []" by auto
  show "hd (take p h @ [c] @ drop p h) = hd h"
    using ne assms by (simp add: hd_append)
  show "last (take p h @ [c] @ drop p h) = last h"
    using ne assms by simp
  show "length (take p h @ [c] @ drop p h) = Suc (length h)"
    using assms by simp
  have "count_list (take p h) c = 0" "count_list (drop p h) c = 0"
    using assms(1) by (auto simp: count_list_0_iff dest: in_set_takeD in_set_dropD)
  then show "count_list (take p h @ [c] @ drop p h) c = 1" by simp
  show "(take p h @ [c] @ drop p h) ! p = c"
    using assms by (simp add: nth_append)
  show "take p (take p h @ [c] @ drop p h) @ drop (Suc p) (take p h @ [c] @ drop p h) = h"
    using assms by simp
qed

lemma insert_position:
  assumes "c \<notin> set h" "3 \<le> length h"
  shows "\<exists>pos g'. randint 1 (length h - 1) g = Inr (pos, g') \<and>
         1 \<le> pos \<and> pos + 2 \<le> length h \<and>
         (take pos h @ [c] @ drop pos h) ! pos = c \<and>
         count_list (take pos h @ [c] @ drop pos h) c = 1 \<and>
         hd (take pos h @ [c] @ drop pos h) = hd h \<and>
         last (take pos h @ [c] @ drop pos h) = last h \<and>
         take pos (take pos h @ [c] @ drop pos h) @
           drop (Suc pos) (take pos h @ [c] @ drop pos h) = h"
proof -
  from assms(2) have "1 < length h - 1" by simp
  from randint_range [OF this, of g] obtain pos
    where r: "randint 1 (length h - 1) g = Inr (pos, g\<lparr>used := used g + 1\<rparr>)"
      and b: "1 \<le> pos" "pos < length h - 1" by blast
  from b have p: "pos < length h" "pos + 2 \<le> length h" by simp_all
  from insert_char_props [OF assms(1) b(1) p(1)] r b(1) p(2) show ?thesis by blast
qed

text \<open>
  C10. On a handle of at least three characters that holds no \<open>.\<close>, \<open>dot_variant\<close>
  returns the handle with one \<open>.\<close> put in at a position \<open>pos\<close> with at least one
  character before it and at least two after it: the result holds exactly one \<open>.\<close>, its
  first and last characters are those of the handle, and taking the \<open>.\<close> out gives the
  handle back. On a handle that holds a \<open>.\<close> or is shorter than three characters it
  returns the handle, and draws nothing. The same holds for \<open>underscore_variant\<close> and \<open>_\<close>.
\<close>

theorem variant_inserts_one_separator:
  "(CHR ''.'' \<notin> set h \<and> 3 \<le> length h \<longrightarrow>
      (\<exists>pos g'. dot_variant h g = Inr (take pos h @ ''.'' @ drop pos h, g') \<and>
         1 \<le> pos \<and> pos + 2 \<le> length h \<and>
         (take pos h @ ''.'' @ drop pos h) ! pos = CHR ''.'' \<and>
         count_list (take pos h @ ''.'' @ drop pos h) (CHR ''.'') = 1 \<and>
         hd (take pos h @ ''.'' @ drop pos h) = hd h \<and>
         last (take pos h @ ''.'' @ drop pos h) = last h \<and>
         take pos (take pos h @ ''.'' @ drop pos h) @
           drop (Suc pos) (take pos h @ ''.'' @ drop pos h) = h)) \<and>
   (CHR ''.'' \<in> set h \<or> length h < 3 \<longrightarrow> dot_variant h g = Inr (h, g)) \<and>
   (CHR ''_'' \<notin> set h \<and> 3 \<le> length h \<longrightarrow>
      (\<exists>pos g'. underscore_variant h g = Inr (take pos h @ ''_'' @ drop pos h, g') \<and>
         1 \<le> pos \<and> pos + 2 \<le> length h \<and>
         (take pos h @ ''_'' @ drop pos h) ! pos = CHR ''_'' \<and>
         count_list (take pos h @ ''_'' @ drop pos h) (CHR ''_'') = 1 \<and>
         hd (take pos h @ ''_'' @ drop pos h) = hd h \<and>
         last (take pos h @ ''_'' @ drop pos h) = last h \<and>
         take pos (take pos h @ ''_'' @ drop pos h) @
           drop (Suc pos) (take pos h @ ''_'' @ drop pos h) = h)) \<and>
   (CHR ''_'' \<in> set h \<or> length h < 3 \<longrightarrow> underscore_variant h g = Inr (h, g))"
proof -
  have d: "\<exists>pos g'. dot_variant h g = Inr (take pos h @ ''.'' @ drop pos h, g') \<and>
         1 \<le> pos \<and> pos + 2 \<le> length h \<and>
         (take pos h @ ''.'' @ drop pos h) ! pos = CHR ''.'' \<and>
         count_list (take pos h @ ''.'' @ drop pos h) (CHR ''.'') = 1 \<and>
         hd (take pos h @ ''.'' @ drop pos h) = hd h \<and>
         last (take pos h @ ''.'' @ drop pos h) = last h \<and>
         take pos (take pos h @ ''.'' @ drop pos h) @
           drop (Suc pos) (take pos h @ ''.'' @ drop pos h) = h"
    if a: "CHR ''.'' \<notin> set h" "3 \<le> length h"
  proof -
    from insert_position [OF a, of g] obtain pos g'
      where r: "randint 1 (length h - 1) g = Inr (pos, g')"
        and rest: "1 \<le> pos \<and> pos + 2 \<le> length h \<and>
         (take pos h @ ''.'' @ drop pos h) ! pos = CHR ''.'' \<and>
         count_list (take pos h @ ''.'' @ drop pos h) (CHR ''.'') = 1 \<and>
         hd (take pos h @ ''.'' @ drop pos h) = hd h \<and>
         last (take pos h @ ''.'' @ drop pos h) = last h \<and>
         take pos (take pos h @ ''.'' @ drop pos h) @
           drop (Suc pos) (take pos h @ ''.'' @ drop pos h) = h" by blast
    from r a have "dot_variant h g = Inr (take pos h @ ''.'' @ drop pos h, g')"
      by (simp add: dot_variant_def)
    with rest show ?thesis by blast
  qed
  have u: "\<exists>pos g'. underscore_variant h g = Inr (take pos h @ ''_'' @ drop pos h, g') \<and>
         1 \<le> pos \<and> pos + 2 \<le> length h \<and>
         (take pos h @ ''_'' @ drop pos h) ! pos = CHR ''_'' \<and>
         count_list (take pos h @ ''_'' @ drop pos h) (CHR ''_'') = 1 \<and>
         hd (take pos h @ ''_'' @ drop pos h) = hd h \<and>
         last (take pos h @ ''_'' @ drop pos h) = last h \<and>
         take pos (take pos h @ ''_'' @ drop pos h) @
           drop (Suc pos) (take pos h @ ''_'' @ drop pos h) = h"
    if a: "CHR ''_'' \<notin> set h" "3 \<le> length h"
  proof -
    from insert_position [OF a, of g] obtain pos g'
      where r: "randint 1 (length h - 1) g = Inr (pos, g')"
        and rest: "1 \<le> pos \<and> pos + 2 \<le> length h \<and>
         (take pos h @ ''_'' @ drop pos h) ! pos = CHR ''_'' \<and>
         count_list (take pos h @ ''_'' @ drop pos h) (CHR ''_'') = 1 \<and>
         hd (take pos h @ ''_'' @ drop pos h) = hd h \<and>
         last (take pos h @ ''_'' @ drop pos h) = last h \<and>
         take pos (take pos h @ ''_'' @ drop pos h) @
           drop (Suc pos) (take pos h @ ''_'' @ drop pos h) = h" by blast
    from r a have "underscore_variant h g = Inr (take pos h @ ''_'' @ drop pos h, g')"
      by (simp add: underscore_variant_def)
    with rest show ?thesis by blast
  qed
  have d0: "CHR ''.'' \<in> set h \<or> length h < 3 \<longrightarrow> dot_variant h g = Inr (h, g)"
    by (auto simp: dot_variant_def)
  have u0: "CHR ''_'' \<in> set h \<or> length h < 3 \<longrightarrow> underscore_variant h g = Inr (h, g)"
    by (auto simp: underscore_variant_def)
  from d d0 u u0 show ?thesis by blast
qed

theorem variant_inserts_one_separator_witness:
  "(\<exists>pos g'. dot_variant ''frauder007'' \<lparr>draws = (\<lambda>i. 11), used = 0\<rparr>
               = Inr (take pos ''frauder007'' @ ''.'' @ drop pos ''frauder007'', g') \<and>
      1 \<le> pos \<and> pos + 2 \<le> 10) \<and>
   (\<exists>pos g'. underscore_variant ''frauder007'' \<lparr>draws = (\<lambda>i. 11), used = 0\<rparr>
               = Inr (take pos ''frauder007'' @ ''_'' @ drop pos ''frauder007'', g') \<and>
      1 \<le> pos \<and> pos + 2 \<le> 10) \<and>
   dot_variant ''fr.auder007'' \<lparr>draws = (\<lambda>i. 11), used = 0\<rparr>
     = Inr (''fr.auder007'', \<lparr>draws = (\<lambda>i. 11), used = 0\<rparr>) \<and>
   underscore_variant ''ab'' \<lparr>draws = (\<lambda>i. 11), used = 0\<rparr>
     = Inr (''ab'', \<lparr>draws = (\<lambda>i. 11), used = 0\<rparr>)"
proof -
  have a: "CHR ''.'' \<notin> set ''frauder007'' \<and> 3 \<le> length ''frauder007''"
    and b: "CHR ''_'' \<notin> set ''frauder007'' \<and> 3 \<le> length ''frauder007''"
    and c: "CHR ''.'' \<in> set ''fr.auder007'' \<or> length ''fr.auder007'' < 3"
    and d: "CHR ''_'' \<in> set ''ab'' \<or> length ''ab'' < 3"
    by simp_all
  have l: "length ''frauder007'' = 10" by simp
  from variant_inserts_one_separator [of "''frauder007''" "\<lparr>draws = (\<lambda>i. 11), used = 0\<rparr>"]
    variant_inserts_one_separator [of "''fr.auder007''" "\<lparr>draws = (\<lambda>i. 11), used = 0\<rparr>"]
    variant_inserts_one_separator [of "''ab''" "\<lparr>draws = (\<lambda>i. 11), used = 0\<rparr>"]
    a b c d
  show ?thesis unfolding l by blast
qed

section \<open>The cluster builder\<close>

lemma cluster_loop_result:
  assumes "1 \<le> m" "m \<le> M"
  shows "\<exists>cs g'. cluster_loop m M hub cursor cid acc g = Some (Inr (acc @ cs, g')) \<and>
           concat (map ips cs) = drop cursor hub \<and>
           map cluster_id cs = [cid..<cid + length cs] \<and>
           (\<forall>c \<in> set cs. 1 \<le> length (ips c) \<and> length (ips c) \<le> M) \<and>
           (\<forall>c \<in> set (butlast cs). m \<le> length (ips c))"
proof (induction "length hub - cursor" arbitrary: cursor cid acc g rule: less_induct)
  case less
  show ?case
  proof (cases "cursor < length hub")
    case False
    then have "cluster_loop m M hub cursor cid acc g = Some (Inr (acc @ [], g))"
      by (subst cluster_loop.simps) simp
    with False show ?thesis by force
  next
    case True
    from assms have "m < M + 1" by simp
    from randint_range [OF this, of g] obtain k
      where r: "randint m (M + 1) g = Inr (k, g\<lparr>used := used g + 1\<rparr>)"
        and k: "m \<le> k" "k < M + 1" by blast
    define c0 where "c0 = \<lparr>cluster_id = cid, ips = take k (drop cursor hub)\<rparr>"
    from k assms True have dec: "length hub - (cursor + k) < length hub - cursor" by simp
    from less [OF dec, of "cid + 1" "acc @ [c0]" "g\<lparr>used := used g + 1\<rparr>"]
    obtain cs g' where
      rec: "cluster_loop m M hub (cursor + k) (cid + 1) (acc @ [c0]) (g\<lparr>used := used g + 1\<rparr>)
              = Some (Inr ((acc @ [c0]) @ cs, g'))"
      and cc: "concat (map ips cs) = drop (cursor + k) hub"
      and ids: "map cluster_id cs = [cid + 1..<cid + 1 + length cs]"
      and sz: "\<forall>c \<in> set cs. 1 \<le> length (ips c) \<and> length (ips c) \<le> M"
      and mn: "\<forall>c \<in> set (butlast cs). m \<le> length (ips c)" by blast
    have step: "cluster_loop m M hub cursor cid acc g = Some (Inr (acc @ (c0 # cs), g'))"
      using True r rec by (subst cluster_loop.simps) (simp add: c0_def)
    have dd: "drop (cursor + k) hub = drop k (drop cursor hub)" by (simp add: add.commute)
    have c1: "concat (map ips (c0 # cs)) = drop cursor hub"
      using append_take_drop_id [of k "drop cursor hub"] by (simp add: c0_def cc add.commute)
    have c2: "map cluster_id (c0 # cs) = [cid..<cid + length (c0 # cs)]"
      using ids by (simp add: c0_def upt_rec)
    have l0: "length (ips c0) = min k (length hub - cursor)" by (simp add: c0_def min.commute)
    have c3: "\<forall>c \<in> set (c0 # cs). 1 \<le> length (ips c) \<and> length (ips c) \<le> M"
      using sz l0 k assms True by auto
    have c4: "\<forall>c \<in> set (butlast (c0 # cs)). m \<le> length (ips c)"
    proof (cases "cs = []")
      case True
      then show ?thesis by simp
    next
      case False
      then obtain c where "c \<in> set cs" by (cases cs) auto
      with sz have "ips c \<noteq> []" by force
      with \<open>c \<in> set cs\<close> have "concat (map ips cs) \<noteq> []" by auto
      with cc have "cursor + k < length hub" by simp
      with l0 k have "m \<le> length (ips c0)" by simp
      with mn False show ?thesis by simp
    qed
    from step c1 c2 c3 c4 show ?thesis by blast
  qed
qed

lemma distinct_concat_nth_disjoint:
  "distinct (concat xss) \<Longrightarrow> i < j \<Longrightarrow> j < length xss \<Longrightarrow> set (xss ! i) \<inter> set (xss ! j) = {}"
proof (induction xss arbitrary: i j)
  case Nil
  then show ?case by simp
next
  case (Cons xs xss)
  show ?case
  proof (cases i)
    case 0
    with Cons.prems obtain j' where j: "j = Suc j'" "j' < length xss" by (cases j) auto
    then have "xss ! j' \<in> set xss" by simp
    with Cons.prems(1) have "set xs \<inter> set (xss ! j') = {}" by auto
    with 0 j show ?thesis by simp
  next
    case (Suc i')
    with Cons.prems obtain j' where j: "j = Suc j'" "j' < length xss" "i' < j'" by (cases j) auto
    with Cons.IH [of i' j'] Cons.prems(1) Suc show ?thesis by simp
  qed
qed

lemma build_clusters_props:
  assumes "1 \<le> m" "m \<le> M" "distinct hub"
  shows "\<exists>cs g'. build_clusters m M hub g = Some (Inr (cs, g')) \<and>
           concat (map ips cs) = hub \<and>
           (\<Union>c \<in> set cs. set (ips c)) = set hub \<and>
           (\<forall>i j. i < j \<and> j < length cs \<longrightarrow> set (ips (cs ! i)) \<inter> set (ips (cs ! j)) = {}) \<and>
           map cluster_id cs = [1..<length cs + 1] \<and>
           (\<forall>c \<in> set cs. 1 \<le> length (ips c) \<and> length (ips c) \<le> M) \<and>
           (\<forall>c \<in> set (butlast cs). m \<le> length (ips c))"
proof -
  from cluster_loop_result [OF assms(1,2), of hub 0 1 "[]" g] obtain cs g' where
    r: "build_clusters m M hub g = Some (Inr (cs, g'))"
    and cc: "concat (map ips cs) = hub"
    and ids: "map cluster_id cs = [1..<length cs + 1]"
    and sz: "\<forall>c \<in> set cs. 1 \<le> length (ips c) \<and> length (ips c) \<le> M"
    and mn: "\<forall>c \<in> set (butlast cs). m \<le> length (ips c)"
    by (auto simp: build_clusters_def add.commute)
  have un: "(\<Union>c \<in> set cs. set (ips c)) = set hub"
    using cc by (metis set_concat set_map image_image)
  have dj: "\<forall>i j. i < j \<and> j < length cs \<longrightarrow> set (ips (cs ! i)) \<inter> set (ips (cs ! j)) = {}"
  proof (intro allI impI)
    fix i j assume ij: "i < j \<and> j < length cs"
    from assms(3) cc have "distinct (concat (map ips cs))" by simp
    from distinct_concat_nth_disjoint [OF this, of i j] ij show
      "set (ips (cs ! i)) \<inter> set (ips (cs ! j)) = {}" by simp
  qed
  from r cc un dj ids sz mn show ?thesis by blast
qed

text \<open>
  C3. For a size range \<open>1 \<le> m \<le> M\<close> and a hub list without repetition (it is the list
  of a set), the cluster loop returns, without an exception: the blocks of the clusters
  concatenate to the hub list, so their union is the hub set and two different clusters
  share no IP; the ids are \<open>1, 2, ..., k\<close> in list order; every cluster holds between
  one and \<open>M\<close> IPs, and every cluster but the last holds at least \<open>m\<close>. The last may
  hold fewer, as in the run on three hubs that follows.
\<close>

theorem build_clusters_partition:
  assumes "1 \<le> m" "m \<le> M" "distinct hub"
  shows "\<exists>cs g'. build_clusters m M hub g = Some (Inr (cs, g')) \<and>
           concat (map ips cs) = hub \<and>
           (\<Union>c \<in> set cs. set (ips c)) = set hub \<and>
           (\<forall>i j. i < j \<and> j < length cs \<longrightarrow> set (ips (cs ! i)) \<inter> set (ips (cs ! j)) = {}) \<and>
           map cluster_id cs = [1..<length cs + 1] \<and>
           (\<forall>c \<in> set cs. 1 \<le> length (ips c) \<and> length (ips c) \<le> M) \<and>
           (\<forall>c \<in> set (butlast cs). m \<le> length (ips c))"
  using assms by (rule build_clusters_props)

theorem build_clusters_partition_witness:
  "\<exists>cs g'. build_clusters 2 5 [I 1, I 2, I 3] \<lparr>draws = (\<lambda>i. 0), used = 0\<rparr> = Some (Inr (cs, g')) \<and>
     concat (map ips cs) = [I 1, I 2, I 3] \<and>
     map cluster_id cs = [1..<length cs + 1] \<and>
     (\<forall>c \<in> set (butlast cs). 2 \<le> length (ips c))"
proof -
  have h: "(1::nat) \<le> 2" "(2::nat) \<le> 5" "distinct [I 1, I 2, I 3]" by simp_all
  from build_clusters_partition [OF h, of "\<lparr>draws = (\<lambda>i. 0), used = 0\<rparr>"]
  obtain cs g' where
    "build_clusters 2 5 [I 1, I 2, I 3] \<lparr>draws = (\<lambda>i. 0), used = 0\<rparr> = Some (Inr (cs, g'))"
    "concat (map ips cs) = [I 1, I 2, I 3]"
    "map cluster_id cs = [1..<length cs + 1]"
    "\<forall>c \<in> set (butlast cs). 2 \<le> length (ips c)" by blast
  then show ?thesis by blast
qed

section \<open>The hub selector\<close>

lemma unique_props [simp]: "distinct (unique xs)" "set (unique xs) = set xs"
  by (simp_all add: unique_def)

lemma length_unique: "length (unique xs) = card (set xs)"
  by (metis distinct_card unique_props)

lemma py_list_of_set_props [simp]:
  "distinct (py_list_of_set slot xs)" "set (py_list_of_set slot xs) = set xs"
  by (simp_all add: py_list_of_set_def Let_def)

lemma length_py_list_of_set: "distinct xs \<Longrightarrow> length (py_list_of_set slot xs) = length xs"
  by (metis distinct_card py_list_of_set_props)

lemma distinct_mset_sub:
  assumes "mset ys \<subseteq># mset xs" "distinct xs"
  shows "distinct ys"
  unfolding distinct_count_atmost_1
proof
  fix a
  have le: "count (mset ys) a \<le> count (mset xs) a"
    using assms(1) by (rule mset_subset_eq_count)
  have x: "count (mset xs) a \<le> 1"
    using assms(2) by (simp add: distinct_count_atmost_1)
  show "count (mset ys) a = (if a \<in> set ys then 1 else 0)"
  proof (cases "a \<in> set ys")
    case True
    then have p: "1 \<le> count (mset ys) a" by (simp add: Suc_le_eq)
    from p le x have "count (mset ys) a = 1" by linarith
    with True show ?thesis by (simp only: if_True)
  next
    case False
    then show ?thesis by (simp add: count_eq_zero_iff)
  qed
qed

lemma choice_noreplace_result:
  "k \<le> length a \<Longrightarrow>
     \<exists>ys g'. choice_noreplace a k g = Inr (ys, g') \<and> length ys = k \<and> mset ys \<subseteq># mset a"
proof (induction k arbitrary: a g)
  case 0
  then show ?case by simp
next
  case (Suc k)
  from Suc.prems have "0 < length a" by auto
  from randint_range [OF this, of g] obtain i
    where r: "randint 0 (length a) g = Inr (i, g\<lparr>used := used g + 1\<rparr>)" and i: "i < length a"
    by blast
  let ?rest = "take i a @ drop (Suc i) a"
  from Suc.prems i have "k \<le> length ?rest" by simp
  from Suc.IH [OF this, of "g\<lparr>used := used g + 1\<rparr>"] obtain ys g'
    where rec: "choice_noreplace ?rest k (g\<lparr>used := used g + 1\<rparr>) = Inr (ys, g')"
      and l: "length ys = k" and sub: "mset ys \<subseteq># mset ?rest" by blast
  have a: "a = take i a @ a ! i # drop (Suc i) a" using i by (simp add: id_take_nth_drop)
  have "mset a = add_mset (a ! i) (mset ?rest)" by (subst a) simp
  with sub have "mset (a ! i # ys) \<subseteq># mset a" by simp
  moreover have "choice_noreplace a (Suc k) g = Inr (a ! i # ys, g')" using r rec by simp
  ultimately show ?case using l by (metis length_Cons)
qed

lemma bit_length_less: "n < 2 ^ bit_length n"
proof (induction n rule: bit_length.induct)
  case (1 n)
  show ?case
  proof (cases "n = 0")
    case True then show ?thesis by (simp add: bit_length.simps)
  next
    case False
    from 1 [OF False] have "n div 2 < 2 ^ bit_length (n div 2)" .
    then have "n < 2 * 2 ^ bit_length (n div 2)" by linarith
    with False show ?thesis by (subst bit_length.simps) simp
  qed
qed

lemma bit_length_ge: "0 < n \<Longrightarrow> 2 ^ (bit_length n - 1) \<le> n"
proof (induction n rule: bit_length.induct)
  case (1 n)
  then have n: "n \<noteq> 0" by simp
  show ?case
  proof (cases "n div 2 = 0")
    case True
    then have "bit_length n = 1" using n by (simp add: bit_length.simps [of n] bit_length.simps [of 0])
    with 1(2) show ?thesis by simp
  next
    case False
    with 1(1) [OF n] have h: "2 ^ (bit_length (n div 2) - 1) \<le> n div 2" by simp
    from False have "0 < bit_length (n div 2)" by (subst bit_length.simps) simp
    then have "bit_length n - 1 = Suc (bit_length (n div 2) - 1)"
      using n by (subst bit_length.simps) simp
    with h show ?thesis by simp
  qed
qed

lemma bit_length_le: "n < 2 ^ k \<Longrightarrow> bit_length n \<le> k"
proof (rule ccontr)
  assume a: "n < 2 ^ k" and "\<not> bit_length n \<le> k"
  then have k: "k \<le> bit_length n - 1" by simp
  then have "0 < n" using \<open>\<not> bit_length n \<le> k\<close> by (cases "n = 0") (simp_all add: bit_length.simps)
  from bit_length_ge [OF this] have "2 ^ (bit_length n - 1) \<le> n" .
  moreover from k have "(2::nat) ^ k \<le> 2 ^ (bit_length n - 1)" by (rule power_increasing) simp
  ultimately show False using a by linarith
qed


lemma round_double_shape:
  assumes "bit_length p \<le> 53 + E"
  shows "\<exists>s q'. s \<le> E \<and> s = max (bit_length p - 53) (E - 1074) \<and>
           round_double p (- int E) = \<lparr>significand = q', exponent = int s - int E\<rparr> \<and>
           p div 2 ^ s \<le> q' \<and> q' \<le> p div 2 ^ s + 1 \<and>
           2 * (q' * 2 ^ s) \<le> 2 * p + 2 ^ s \<and>
           int_of_double (round_double p (- int E)) = q' div 2 ^ (E - s)"
proof -
  define s where "s = max (bit_length p - 53) (E - 1074)"
  define d :: nat where "d = 2 ^ s"
  define q where "q = p div d"
  define r where "r = p mod d"
  define q' where "q' = (if d < 2 * r \<or> (2 * r = d \<and> odd q) then q + 1 else q)"
  have n: "nat (int E - 1074) = E - 1074" by arith
  have rd: "round_double p (- int E) = \<lparr>significand = q', exponent = int s - int E\<rparr>"
    by (simp add: round_double_def Let_def n s_def d_def q_def r_def q'_def)
  from assms have sE: "s \<le> E" by (simp add: s_def)
  have p: "p = q * d + r" by (simp add: q_def r_def)
  have 1: "q \<le> q'" "q' \<le> q + 1" by (simp_all add: q'_def)
  have 2: "2 * (q' * d) \<le> 2 * p + d"
  proof (cases "d < 2 * r \<or> (2 * r = d \<and> odd q)")
    case True
    then have "q' * d = q * d + d" "d \<le> 2 * r" by (auto simp: q'_def)
    with p show ?thesis by linarith
  next
    case False
    then have "q' = q" by (simp add: q'_def)
    with p show ?thesis by simp
  qed
  have 3: "int_of_double (round_double p (- int E)) = q' div 2 ^ (E - s)"
  proof (cases "s = E")
    case True
    then show ?thesis by (simp add: rd int_of_double_def)
  next
    case False
    with sE have "s < E" by simp
    then have "nat (int E - int s) = E - s" by simp
    with \<open>s < E\<close> show ?thesis by (simp add: rd int_of_double_def)
  qed
  from sE rd 1 2 3 show ?thesis unfolding q_def d_def s_def by blast
qed

lemma int_of_round_bounds:
  assumes "bit_length p \<le> 53 + E"
  shows "p div 2 ^ E \<le> int_of_double (round_double p (- int E))"
    and "int_of_double (round_double p (- int E)) \<le> p div 2 ^ E + 1"
proof -
  from round_double_shape [OF assms] obtain s q' where
    sE: "s \<le> E" and lo: "p div 2 ^ s \<le> q'" and hi: "q' \<le> p div 2 ^ s + 1"
    and t: "int_of_double (round_double p (- int E)) = q' div 2 ^ (E - s)" by blast
  have e: "(2::nat) ^ E = 2 ^ s * 2 ^ (E - s)" using sE by (simp flip: power_add)
  have dd: "p div 2 ^ E = p div 2 ^ s div 2 ^ (E - s)" by (simp add: e div_mult2_eq)
  from lo have "p div 2 ^ s div 2 ^ (E - s) \<le> q' div 2 ^ (E - s)" by (rule div_le_mono)
  with t dd show "p div 2 ^ E \<le> int_of_double (round_double p (- int E))" by simp
  from hi have "q' div 2 ^ (E - s) \<le> (p div 2 ^ s + 1) div 2 ^ (E - s)" by (rule div_le_mono)
  also have "\<dots> \<le> p div 2 ^ s div 2 ^ (E - s) + 1"
    by (metis Suc_eq_plus1 div_add1_eq div_le_mono le_add1 add.commute div_Suc le_SucI lessI
        less_or_eq_imp_le not_less_eq_eq)
  finally show "int_of_double (round_double p (- int E)) \<le> p div 2 ^ E + 1"
    using t dd by simp
qed


lemma round_double_exact:
  assumes "n < 2 ^ 53"
  shows "round_double n 0 = \<lparr>significand = n, exponent = 0\<rparr>"
proof -
  from bit_length_le [OF assms] have "bit_length n - 53 = 0" by simp
  then show ?thesis by (simp add: round_double_def)
qed

lemma double_val_pos: "0 < double_val f \<Longrightarrow> 0 < significand f"
  by (cases "significand f = 0") (simp_all add: double_val_def)

lemma double_val_less_one:
  assumes "0 < double_val f" "double_val f < 1"
  shows "exponent f < 0" and "significand f < 2 ^ nat (- exponent f)"
proof -
  from double_val_pos [OF assms(1)] have m: "1 \<le> (of_nat (significand f) :: rat)" by simp
  show e: "exponent f < 0"
  proof (rule ccontr)
    assume "\<not> exponent f < 0"
    then have "(1::rat) \<le> 2 powi exponent f" by (simp add: one_le_power_int)
    with m have "1 * 1 \<le> of_nat (significand f) * (2::rat) powi exponent f"
      by (intro mult_mono) simp_all
    with assms(2) show False by (simp add: double_val_def)
  qed
  then have "(2::rat) powi exponent f = 1 / 2 ^ nat (- exponent f)"
    by (simp add: power_int_def field_simps)
  with assms(2) have "(of_nat (significand f) :: rat) < 2 ^ nat (- exponent f)"
    by (simp add: double_val_def field_simps)
  then have "(of_nat (significand f) :: rat) < of_nat (2 ^ nat (- exponent f))" by simp
  then show "significand f < 2 ^ nat (- exponent f)" by (simp only: of_nat_less_iff)
qed

lemma floor_double_product:
  assumes "exponent f < 0"
  shows "\<lfloor>of_nat n * double_val f\<rfloor> = int (n * significand f div 2 ^ nat (- exponent f))"
proof -
  from assms have "(2::rat) powi exponent f = 1 / 2 ^ nat (- exponent f)"
    by (simp add: power_int_def field_simps)
  then have "of_nat n * double_val f
               = (of_nat (n * significand f) :: rat) / of_nat (2 ^ nat (- exponent f))"
    by (simp add: double_val_def)
  then show ?thesis by (simp only: floor_divide_of_nat_eq)
qed

lemma num_hub_ips_result:
  assumes "0 < n" "n < 2 ^ 53" "0 < double_val f" "double_val f < 1"
  shows "\<exists>k. num_hub_ips f n = Inr k \<and> 1 \<le> k \<and> k \<le> n \<and>
           max 1 (nat \<lfloor>of_nat n * double_val f\<rfloor>) \<le> k \<and>
           k \<le> nat \<lfloor>of_nat n * double_val f\<rfloor> + 1"
proof -
  define E where "E = nat (- exponent f)"
  define m where "m = significand f"
  define p where "p = n * m"
  from double_val_less_one [OF assms(3,4)] have e: "exponent f < 0" and mE: "m < 2 ^ E"
    by (simp_all add: E_def m_def)
  then have ee: "exponent f = - int E" by (simp add: E_def)
  have "n * m < 2 ^ 53 * 2 ^ E" using assms(2) mE by (rule mult_strict_mono) simp_all
  then have pl: "p < 2 ^ (53 + E)" by (simp add: p_def power_add)
  then have bl: "bit_length p \<le> 53 + E" by (rule bit_length_le)
  define t where "t = int_of_double (round_double p (- int E))"
  from int_of_round_bounds [OF bl] have lo: "p div 2 ^ E \<le> t" and hi: "t \<le> p div 2 ^ E + 1"
    by (simp_all add: t_def)
  have "n * m < n * 2 ^ E" using mE assms(1) by simp
  then have "p div 2 ^ E < n" by (simp add: p_def div_less_iff_less_mult)
  with hi have tn: "t \<le> n" by simp
  have "n < (2::nat) ^ 1024"
    by (rule less_trans [OF assms(2)]) simp
  with tn have ninf: "\<not> 2 ^ 1024 \<le> t" "\<not> 2 ^ 1024 \<le> n" by simp_all
  have r: "num_hub_ips f n = Inr (max 1 t)"
    using ninf
    by (simp add: num_hub_ips_def round_double_exact [OF assms(2)] isinf_def Let_def
        int_of_double_def [of "\<lparr>significand = n, exponent = 0\<rparr>"] ee t_def p_def m_def)
  have fl: "nat \<lfloor>of_nat n * double_val f\<rfloor> = p div 2 ^ E"
    by (simp add: floor_double_product [OF e] p_def m_def E_def)
  from r lo hi tn assms(1) fl show ?thesis by auto
qed


lemma script_fraction_arith:
  fixes a p d n k :: nat
  assumes "2 * a \<le> 2 * p + d" "p = 7205759403792794 * n" "d \<le> 2 * n"
    "n < 20 * k + 20" "n \<le> 4503599627370496"
  shows "a < (k + 1) * 144115188075855872"
proof -
  from assms(1,3) have "a \<le> p + n" by linarith
  with assms(2) have 1: "a \<le> 7205759403792795 * n" by linarith
  have "20 * a \<le> 144115188075855900 * n" using 1 by linarith
  also have "\<dots> = 144115188075855872 * n + 28 * n" by linarith
  also have "\<dots> < 144115188075855872 * n + 144115188075855872" using assms(5) by linarith
  also have "\<dots> \<le> 144115188075855872 * (20 * (k + 1))" using assms(4) by simp
  finally show ?thesis by simp
qed


lemma num_hub_ips_script:
  assumes "n \<le> 2 ^ 52"
  shows "num_hub_ips (FRACTION_FRAUD_IPS script_config) n = Inr (max 1 (n div 20))"
proof -
  define p where "p = n * 7205759403792794"
  define k where "k = n div 20"
  have kn: "20 * k \<le> n" "n < 20 * k + 20" by (simp_all add: k_def)
  from assms have nb: "n \<le> 4503599627370496" by simp
  with kn have kb: "k \<le> 4503599627370496" by simp
  have n53: "n < 2 ^ 53" using nb by simp
  have "p < 2 ^ 53 * 2 ^ 57" unfolding p_def using n53 by (intro mult_strict_mono) simp_all
  then have "p < 2 ^ (53 + 57)" by (simp only: power_add)
  then have bl: "bit_length p \<le> 53 + 57" by (rule bit_length_le)
  define t where "t = int_of_double (round_double p (- int 57))"
  from round_double_shape [OF bl] obtain s q' where
    sE: "s \<le> 57" and s: "s = max (bit_length p - 53) (57 - 1074)"
    and A: "2 * (q' * 2 ^ s) \<le> 2 * p + 2 ^ s"
    and tq: "t = q' div 2 ^ (57 - s)" unfolding t_def by blast
  have lo: "k \<le> t"
  proof -
    have "k * 144115188075855872 \<le> p" using kn by (simp add: p_def)
    then have "k \<le> p div 2 ^ 57" by (simp add: less_eq_div_iff_mult_less_eq)
    with int_of_round_bounds(1) [OF bl] show ?thesis by (simp add: t_def)
  qed
  have d: "2 ^ s * 4503599627370496 \<le> p \<or> s = 0"
  proof (cases "s = 0")
    case False
    with s have b: "bit_length p = s + 53" by simp
    then have "0 < p" by (cases "p = 0") (simp_all add: bit_length.simps)
    from bit_length_ge [OF this] b have "2 ^ (s + 52) \<le> p" by (simp add: add.commute)
    then show ?thesis by (simp add: power_add)
  qed simp
  have "q' * 2 ^ s < (k + 1) * 144115188075855872"
  proof (cases "s = 0")
    case True
    with A have "q' \<le> p" by simp
    with kn nb True show ?thesis by (simp add: p_def)
  next
    case False
    define a where "a = q' * 2 ^ s"
    define d' :: nat where "d' = 2 ^ s"
    from False d have 1: "4503599627370496 * d' \<le> p" by (simp add: d'_def mult.commute)
    from A have 2: "2 * a \<le> 2 * p + d'" by (simp add: a_def d'_def)
    have 3: "p = 7205759403792794 * n" by (simp add: p_def)
    from 1 3 have "4503599627370496 * d' \<le> 4503599627370496 * (2 * n)" by linarith
    then have 4: "d' \<le> 2 * n" by simp
    from 2 3 4 kn(2) nb have "a < (k + 1) * 144115188075855872"
      by (rule script_fraction_arith)
    then show ?thesis by (simp add: a_def)
  qed
  also have "(144115188075855872::nat) = 2 ^ (57 - s) * 2 ^ s"
    using sE by (simp flip: power_add)
  finally have "q' * 2 ^ s < ((k + 1) * 2 ^ (57 - s)) * 2 ^ s" by (simp only: mult.assoc)
  then have "q' < (k + 1) * 2 ^ (57 - s)" by (simp only: mult_less_cancel2)
  then have "t < k + 1" by (simp add: tq div_less_iff_less_mult)
  with lo have tk: "t = k" by simp
  have "k < (2::nat) ^ 1024"
    by (rule le_less_trans [OF kb]) simp
  moreover have "n < (2::nat) ^ 1024"
    by (rule less_trans [OF n53]) simp
  ultimately have ninf: "\<not> 2 ^ 1024 \<le> k" "\<not> 2 ^ 1024 \<le> n" by simp_all
  show ?thesis
    using ninf tk
    by (simp add: num_hub_ips_def round_double_exact [OF n53] isinf_def Let_def script_config_def
        int_of_double_def [of "\<lparr>significand = n, exponent = 0\<rparr>"] t_def p_def k_def)
qed



text \<open>
  C5, as the code has it. For a frame whose \<open>ip\<close> column is not empty and has fewer than
  \<open>2 ^ 53\<close> distinct IPs, and a hub fraction \<open>f\<close> with \<open>0 < f < 1\<close>, the hub selector returns,
  without an exception, a list of distinct IPs of the column with exactly
  \<^verbatim>\<open>max(1, int(n * f))\<close> entries, where \<open>n\<close> is the number of distinct IPs: the product is
  the product of two floats and \<^verbatim>\<open>int\<close> truncates it, it is not rounded to the nearest
  integer. The size is \<open>max 1 \<lfloor>n * f\<rfloor>\<close>, or one more where the float product rounds up
  to the next integer; with the fraction \<open>0.05\<close> of the script and at most \<open>2 ^ 52\<close> distinct
  IPs it is \<open>max 1 (n div 20)\<close>.
\<close>

theorem select_hubs_size:
  assumes "getcol df ''ip'' = Inr ipc" "ipc \<noteq> []" "card (set ipc) < 2 ^ 53"
    and "0 < double_val (FRACTION_FRAUD_IPS cfg)" "double_val (FRACTION_FRAUD_IPS cfg) < 1"
  shows "\<exists>hub g' k. select_hubs cfg E df g = Inr (hub, g') \<and> distinct hub \<and>
           set hub \<subseteq> set ipc \<and>
           num_hub_ips (FRACTION_FRAUD_IPS cfg) (card (set ipc)) = Inr k \<and> length hub = k \<and>
           max 1 (nat \<lfloor>of_nat (card (set ipc)) * double_val (FRACTION_FRAUD_IPS cfg)\<rfloor>) \<le> k \<and>
           k \<le> nat \<lfloor>of_nat (card (set ipc)) * double_val (FRACTION_FRAUD_IPS cfg)\<rfloor> + 1 \<and>
           (FRACTION_FRAUD_IPS cfg = FRACTION_FRAUD_IPS script_config \<and>
              card (set ipc) \<le> 2 ^ 52 \<longrightarrow> k = max 1 (card (set ipc) div 20))"
proof -
  let ?u = "unique ipc"
  let ?f = "FRACTION_FRAUD_IPS cfg"
  have lu: "length ?u = card (set ipc)" by (simp add: length_unique)
  from assms(2) have "set ipc \<noteq> {}" by simp
  then have n: "0 < card (set ipc)" by (simp add: card_gt_0_iff)
  from num_hub_ips_result [OF n assms(3,4,5)] obtain k where
    k: "num_hub_ips ?f (card (set ipc)) = Inr k" and kn: "k \<le> card (set ipc)"
    and lo: "max 1 (nat \<lfloor>of_nat (card (set ipc)) * double_val ?f\<rfloor>) \<le> k"
    and hi: "k \<le> nat \<lfloor>of_nat (card (set ipc)) * double_val ?f\<rfloor> + 1" by blast
  from kn lu have "k \<le> length ?u" by simp
  from choice_noreplace_result [OF this, of g] obtain ys g'
    where c: "choice_noreplace ?u k g = Inr (ys, g')" and l: "length ys = k"
      and sub: "mset ys \<subseteq># mset ?u" by blast
  from sub have d: "distinct ys"
    by (rule distinct_mset_sub) simp
  from sub have s: "set ys \<subseteq> set ipc"
    by (metis set_mset_mono set_mset_mset unique_props(2))
  have r: "select_hubs cfg E df g = Inr (py_list_of_set (cell_set_slot E) ys, g')"
    using assms(1) c k lu by (simp add: select_hubs_def Let_def)
  have len: "length (py_list_of_set (cell_set_slot E) ys) = k"
    using d l by (simp add: length_py_list_of_set)
  have sc: "?f = FRACTION_FRAUD_IPS script_config \<and> card (set ipc) \<le> 2 ^ 52
              \<longrightarrow> k = max 1 (card (set ipc) div 20)"
  proof
    assume a: "?f = FRACTION_FRAUD_IPS script_config \<and> card (set ipc) \<le> 2 ^ 52"
    then have "card (set ipc) \<le> 2 ^ 52" by simp
    from num_hub_ips_script [OF this] a k show "k = max 1 (card (set ipc) div 20)" by simp
  qed
  have "distinct (py_list_of_set (cell_set_slot E) ys)"
    and "set (py_list_of_set (cell_set_slot E) ys) \<subseteq> set ipc"
    using s by (simp_all add: py_list_of_set_props)
  with r k len lo hi sc show ?thesis by blast
qed

theorem select_hubs_size_witness:
  "\<exists>hub g'. select_hubs script_config example_env
               [(''ip'', [I 10, I 20])] example_rng = Inr (hub, g') \<and>
     distinct hub \<and> set hub \<subseteq> {I 10, I 20} \<and>
     num_hub_ips (FRACTION_FRAUD_IPS script_config) 2 = Inr 1 \<and> length hub = 1"
proof -
  have h: "getcol [(''ip'', [I 10, I 20])] ''ip'' = Inr [I 10, I 20]" "[I 10, I 20] \<noteq> []"
    "card (set [I 10, I 20]) < 2 ^ 53"
    "0 < double_val (FRACTION_FRAUD_IPS script_config)"
    "double_val (FRACTION_FRAUD_IPS script_config) < 1"
    by (simp_all add: getcol_def double_val_def script_config_def)
  have c: "card (set [I 10, I 20]) = 2" by simp
  from select_hubs_size [OF h, of example_env example_rng] show ?thesis
    unfolding c by auto
qed

text \<open>
  C5 as stated fails. With two distinct IPs and the fraction \<open>0.9\<close> (the double
  \<open>8106479329266893 * 2 ^ -53\<close>) the selector returns one hub, and the rounded product is
  two; with the fraction \<open>0.05\<close> of the script and 39 distinct IPs the size is one, and
  the rounded product is two.
\<close>

theorem select_hubs_round_counterexample:
  "select_hubs
     (script_config\<lparr>FRACTION_FRAUD_IPS := \<lparr>significand = 8106479329266893, exponent = - 53\<rparr>\<rparr>)
     example_env [(''ip'', [I 10, I 20])] example_rng
     = Inr ([I 10], example_rng\<lparr>used := 1\<rparr>) \<and>
   max 1 (nat (round (of_nat (card {I 10, I 20})
     * double_val \<lparr>significand = 8106479329266893, exponent = - 53\<rparr>))) = 2 \<and>
   num_hub_ips (FRACTION_FRAUD_IPS script_config) 39 = Inr 1 \<and>
   max 1 (nat (round (39 * double_val (FRACTION_FRAUD_IPS script_config)))) = 2"
proof -
  have "num_hub_ips \<lparr>significand = 8106479329266893, exponent = - 53\<rparr> 2 = Inr 1"
    by (simp add: num_hub_ips_def round_double_def isinf_def int_of_double_def
        bit_length.simps Let_def)
  then have n: "num_hub_ips \<lparr>significand = 8106479329266893, exponent = - 53\<rparr>
                  (Suc (Suc 0)) = Inr (Suc 0)"
    by (simp add: numeral_2_eq_2)
  have 1: "select_hubs
     (script_config\<lparr>FRACTION_FRAUD_IPS := \<lparr>significand = 8106479329266893, exponent = - 53\<rparr>\<rparr>)
     example_env [(''ip'', [I 10, I 20])] example_rng
     = Inr ([I 10], example_rng\<lparr>used := 1\<rparr>)"
    by (simp add: select_hubs_def getcol_def unique_def n randint_def
        example_rng_def example_env_def py_list_of_set_def Let_def)
  have "round (2 * double_val \<lparr>significand = 8106479329266893, exponent = - 53\<rparr>) = 2"
    by (simp add: double_val_def round_def floor_eq_iff)
  then have 2: "max 1 (nat (round (of_nat (card {I 10, I 20})
     * double_val \<lparr>significand = 8106479329266893, exponent = - 53\<rparr>))) = 2" by simp
  have 3: "num_hub_ips (FRACTION_FRAUD_IPS script_config) 39 = Inr 1"
    using num_hub_ips_script [of 39] by simp
  have "round (39 * double_val (FRACTION_FRAUD_IPS script_config)) = 2"
    by (simp add: double_val_def round_def floor_eq_iff script_config_def)
  then have 4: "max 1 (nat (round (39 * double_val (FRACTION_FRAUD_IPS script_config)))) = 2"
    by simp
  from 1 2 3 4 show ?thesis by blast
qed

section \<open>Data frame operations\<close>

lemma map_of_setcol [simp]:
  "map_of (setcol df k v) k' = (if k' = k then Some v else map_of df k')"
  by (simp add: setcol_def update_conv')

lemma names_setcol:
  "map fst (setcol df k v) = (if k \<in> set (map fst df) then map fst df else map fst df @ [k])"
  by (simp add: setcol_def update_keys)

lemma getcol_Inr [simp]: "getcol df k = Inr c \<longleftrightarrow> map_of df k = Some c"
  by (simp add: getcol_def split: option.splits)

lemma map_of_loc_assign:
  "map_of (loc_assign ms k vs df) k' =
     (if k' = k
      then Some (mask_assign ms (case map_of df k of None \<Rightarrow> map (\<lambda>_. Null) ms | Some c \<Rightarrow> c) vs)
      else map_of df k')"
  by (simp add: loc_assign_def split: option.splits)

lemma map_of_loc_fill:
  "map_of (loc_fill ms k v df) k' =
     (if k' = k
      then Some (mask_assign ms (case map_of df k of None \<Rightarrow> map (\<lambda>_. Null) ms | Some c \<Rightarrow> c)
                   (replicate (mask_sum ms) v))
      else map_of df k')"
  by (simp add: loc_fill_def map_of_loc_assign)

lemma map_of_index_assign_other:
  "k' \<noteq> k \<Longrightarrow> map_of (index_assign idx k vs df) k' = map_of df k'"
  by (simp add: index_assign_def split: option.splits)

lemma names_loc_assign:
  "k \<in> set (map fst df) \<Longrightarrow> map fst (loc_assign ms k vs df) = map fst df"
  by (auto simp: loc_assign_def names_setcol split: option.splits)

lemma names_loc_fill:
  "k \<in> set (map fst df) \<Longrightarrow> map fst (loc_fill ms k v df) = map fst df"
  by (simp add: loc_fill_def names_loc_assign)

lemma names_index_assign:
  "map fst (index_assign idx k vs df) = map fst df"
proof (cases "map_of df k")
  case None
  then show ?thesis by (simp add: index_assign_def)
next
  case (Some c)
  then have "k \<in> set (map fst df)" by (metis map_of_eq_None_iff option.distinct(1) set_map)
  with Some show ?thesis by (simp add: index_assign_def names_setcol)
qed

lemma length_mask_assign [simp]: "length (mask_assign ms cs vs) = length cs"
  by (induction ms cs vs rule: mask_assign.induct) (auto split: list.splits)

lemma mask_sum_Cons [simp]: "mask_sum (m # ms) = (if m then Suc (mask_sum ms) else mask_sum ms)"
  by (simp add: mask_sum_def)

lemma mask_sum_Nil [simp]: "mask_sum [] = 0"
  by (simp add: mask_sum_def)

lemma mask_assign_nth:
  "length ms = length cs \<Longrightarrow> i < length cs \<Longrightarrow> mask_sum ms \<le> length vs \<Longrightarrow>
     mask_assign ms cs vs ! i = (if ms ! i then vs ! mask_sum (take i ms) else cs ! i)"
proof (induction ms cs vs arbitrary: i rule: mask_assign.induct)
  case (1 ms vs)
  then show ?case by simp
next
  case (2 c cs vs)
  then show ?case by simp
next
  case (3 m ms c cs vs)
  show ?case
  proof (cases i)
    case 0
    with "3.prems" show ?thesis by (auto split: list.splits)
  next
    case (Suc j)
    with "3.prems" "3.IH" show ?thesis by (auto split: list.splits)
  qed
qed

lemma mask_sum_take_less:
  "i < length ms \<Longrightarrow> ms ! i \<Longrightarrow> mask_sum (take i ms) < mask_sum ms"
proof (induction ms arbitrary: i)
  case Nil
  then show ?case by simp
next
  case (Cons m ms)
  then show ?case by (cases i) auto
qed

section \<open>The override loop\<close>

lemma randint_Inr: "randint low high g = Inr (k, g') \<Longrightarrow> low \<le> k \<and> k < high"
  by (auto simp: randint_def split: if_splits)
     (metis add.commute less_diff_conv mod_less_divisor zero_less_diff not_le)

lemma choice_result: "choice a k g = Inr (ys, g') \<Longrightarrow> length ys = k \<and> set ys \<subseteq> set a"
proof (induction k arbitrary: ys g)
  case 0
  then show ?case by simp
next
  case (Suc k)
  from Suc.prems obtain i g1 zs where r: "randint 0 (length a) g = Inr (i, g1)"
    and c: "choice a k g1 = Inr (zs, g')" and ys: "ys = a ! i # zs"
    by (auto split: sum.splits)
  from randint_Inr [OF r] have "a ! i \<in> set a" by simp
  with Suc.IH [OF c] ys show ?case by simp
qed

lemma mask_fill_nth:
  "length ms = length cs \<Longrightarrow> i < length cs \<Longrightarrow>
     mask_assign ms cs (replicate (mask_sum ms) v) ! i = (if ms ! i then v else cs ! i)"
  by (simp add: mask_assign_nth mask_sum_take_less)

lemma mask_assign_in_set:
  "length ms = length cs \<Longrightarrow> i < length cs \<Longrightarrow> mask_sum ms \<le> length vs \<Longrightarrow> ms ! i \<Longrightarrow>
     mask_assign ms cs vs ! i \<in> set vs"
  using mask_sum_take_less [of i ms] by (simp add: mask_assign_nth)

lemma mask_assign_keep:
  "length ms = length cs \<Longrightarrow> i < length cs \<Longrightarrow> mask_sum ms \<le> length vs \<Longrightarrow> \<not> ms ! i \<Longrightarrow>
     mask_assign ms cs vs ! i = cs ! i"
  by (simp add: mask_assign_nth)

lemma isin_nth [simp]: "i < length c \<Longrightarrow> isin c A ! i = (c ! i \<in> A)"
  by (simp add: isin_def)

lemma length_isin [simp]: "length (isin c A) = length c"
  by (simp add: isin_def)

lemma isin_none: "\<not> mask_any (isin c A) \<Longrightarrow> i < length c \<Longrightarrow> c ! i \<notin> A"
  by (auto simp: isin_def mask_any_def)

lemma override_rows_frame:
  assumes "override_rows E P A F cid ms df g = Inr (df', g')"
    and "k \<notin> {''ad_id'', ''user_id'', ''email'', ''country'', ''device_fingerprint'',
               ''fraud_cluster_id'', ''is_synthetic_fraud''}"
  shows "map_of df' k = map_of df k"
  using assms
  by (auto simp: override_rows_def Let_def map_of_loc_assign map_of_loc_fill
      map_of_index_assign_other split: sum.splits prod.splits)

lemma override_cluster_cases:
  assumes "override_cluster E P A F c df g = Inr (df', g')" "map_of df ''ip'' = Some ipc"
  shows "(\<not> mask_any (isin ipc (set (ips c))) \<and> df' = df \<and> g' = g) \<or>
         (mask_any (isin ipc (set (ips c))) \<and>
          override_rows E P A F (cluster_id c) (isin ipc (set (ips c))) df g = Inr (df', g'))"
proof -
  from assms(2) have gi: "getcol df ''ip'' = Inr ipc" by simp
  show ?thesis
  proof (cases "mask_any (isin ipc (set (ips c)))")
    case True
    with assms(1) gi show ?thesis by (simp add: override_cluster_def)
  next
    case False
    with assms(1) gi show ?thesis by (simp add: override_cluster_def)
  qed
qed


lemma override_rows_columns:
  assumes "override_rows E P A F cid ms df g = Inr (df', g')"
    and "map_of df ''fraud_cluster_id'' = Some fc"
    and "map_of df ''is_synthetic_fraud'' = Some sf"
    and "map_of df ''device_fingerprint'' = Some dfp"
    and "map_of df ''email'' = Some em"
  shows "\<exists>fp pool vs. F cid = Some fp \<and> P cid = Some pool \<and>
           length vs = mask_sum ms \<and>
           set vs \<subseteq> (\<lambda>(h, d). S (email_from_handle h d)) ` (set pool \<times> set fraud_domains) \<and>
           map_of df' ''fraud_cluster_id''
             = Some (mask_assign ms fc (replicate (mask_sum ms) (I (int cid)))) \<and>
           map_of df' ''is_synthetic_fraud''
             = Some (mask_assign ms sf (replicate (mask_sum ms) (B True))) \<and>
           map_of df' ''device_fingerprint''
             = Some (mask_assign ms dfp (replicate (mask_sum ms) (S fp))) \<and>
           map_of df' ''email'' = Some (mask_assign ms em vs)"
proof -
  from assms(1) obtain tads ads g1 fp pool handles g2 doms g3 where
    f: "lookup F cid = Inr fp" and p: "lookup P cid = Inr pool"
    and h: "choice pool (mask_sum ms) g1 = Inr (handles, g2)"
    and d: "choice fraud_domains (mask_sum ms) g2 = Inr (doms, g3)"
    and cols: "map_of df' ''fraud_cluster_id''
             = Some (mask_assign ms fc (replicate (mask_sum ms) (I (int cid))))"
      "map_of df' ''is_synthetic_fraud''
             = Some (mask_assign ms sf (replicate (mask_sum ms) (B True)))"
      "map_of df' ''device_fingerprint''
             = Some (mask_assign ms dfp (replicate (mask_sum ms) (S fp)))"
      "map_of df' ''email''
             = Some (mask_assign ms em (map (\<lambda>(h, d). S (email_from_handle h d)) (zip handles doms)))"
    using assms(2-5)
    by (auto simp: override_rows_def Let_def map_of_loc_assign map_of_loc_fill
        map_of_index_assign_other split: sum.splits prod.splits)
  let ?vs = "map (\<lambda>(h, d). S (email_from_handle h d)) (zip handles doms)"
  from choice_result [OF h] choice_result [OF d]
  have l: "length handles = mask_sum ms" "length doms = mask_sum ms"
    and sub: "set handles \<subseteq> set pool" "set doms \<subseteq> set fraud_domains" by simp_all
  from l have lv: "length ?vs = mask_sum ms" by simp
  have "set (zip handles doms) \<subseteq> set pool \<times> set fraud_domains"
    using sub by (auto dest: set_zip_leftD set_zip_rightD)
  then have sv: "set ?vs \<subseteq> (\<lambda>(h, d). S (email_from_handle h d)) ` (set pool \<times> set fraud_domains)"
    by auto
  from f have "F cid = Some fp" by (simp add: lookup_def split: option.splits)
  moreover from p have "P cid = Some pool" by (simp add: lookup_def split: option.splits)
  ultimately show ?thesis using lv sv cols by blast
qed

lemma override_cluster_rows:
  assumes run: "override_cluster E P A F c df g = Inr (df', g')"
    and ip: "map_of df ''ip'' = Some ipc"
    and fc: "map_of df ''fraud_cluster_id'' = Some fc" "length fc = length ipc"
    and sf: "map_of df ''is_synthetic_fraud'' = Some sf" "length sf = length ipc"
    and dfp: "map_of df ''device_fingerprint'' = Some dfp" "length dfp = length ipc"
    and em: "map_of df ''email'' = Some em" "length em = length ipc"
  shows "\<exists>fc' sf' dfp' em'.
           map_of df' ''ip'' = Some ipc \<and>
           map_of df' ''fraud_cluster_id'' = Some fc' \<and> length fc' = length ipc \<and>
           map_of df' ''is_synthetic_fraud'' = Some sf' \<and> length sf' = length ipc \<and>
           map_of df' ''device_fingerprint'' = Some dfp' \<and> length dfp' = length ipc \<and>
           map_of df' ''email'' = Some em' \<and> length em' = length ipc \<and>
           (\<forall>i < length ipc.
              if ipc ! i \<in> set (ips c)
              then cluster_row P F c (fc' ! i) (sf' ! i) (dfp' ! i) (em' ! i)
              else fc' ! i = fc ! i \<and> sf' ! i = sf ! i \<and> dfp' ! i = dfp ! i \<and> em' ! i = em ! i)"
proof -
  let ?ms = "isin ipc (set (ips c))"
  from override_cluster_cases [OF run ip] show ?thesis
  proof (elim disjE conjE)
    assume "\<not> mask_any ?ms" "df' = df" "g' = g"
    with ip fc sf dfp em show ?thesis by (auto dest: isin_none)
  next
    assume any: "mask_any ?ms"
      and rows: "override_rows E P A F (cluster_id c) ?ms df g = Inr (df', g')"
    from override_rows_columns [OF rows fc(1) sf(1) dfp(1) em(1)] obtain fp pool vs where
      F: "F (cluster_id c) = Some fp" and P: "P (cluster_id c) = Some pool"
      and lv: "length vs = mask_sum ?ms"
      and sv: "set vs \<subseteq> (\<lambda>(h, d). S (email_from_handle h d)) ` (set pool \<times> set fraud_domains)"
      and c1: "map_of df' ''fraud_cluster_id''
                 = Some (mask_assign ?ms fc (replicate (mask_sum ?ms) (I (int (cluster_id c)))))"
      and c2: "map_of df' ''is_synthetic_fraud''
                 = Some (mask_assign ?ms sf (replicate (mask_sum ?ms) (B True)))"
      and c3: "map_of df' ''device_fingerprint''
                 = Some (mask_assign ?ms dfp (replicate (mask_sum ?ms) (S fp)))"
      and c4: "map_of df' ''email'' = Some (mask_assign ?ms em vs)" by blast
    have c0: "map_of df' ''ip'' = Some ipc"
      using override_rows_frame [OF rows, of "''ip''"] ip by simp
    have row: "if ipc ! i \<in> set (ips c)
         then cluster_row P F c
                (mask_assign ?ms fc (replicate (mask_sum ?ms) (I (int (cluster_id c)))) ! i)
                (mask_assign ?ms sf (replicate (mask_sum ?ms) (B True)) ! i)
                (mask_assign ?ms dfp (replicate (mask_sum ?ms) (S fp)) ! i)
                (mask_assign ?ms em vs ! i)
         else mask_assign ?ms fc (replicate (mask_sum ?ms) (I (int (cluster_id c)))) ! i = fc ! i \<and>
              mask_assign ?ms sf (replicate (mask_sum ?ms) (B True)) ! i = sf ! i \<and>
              mask_assign ?ms dfp (replicate (mask_sum ?ms) (S fp)) ! i = dfp ! i \<and>
              mask_assign ?ms em vs ! i = em ! i"
      if i: "i < length ipc" for i
    proof (cases "ipc ! i \<in> set (ips c)")
      case True
      with i have m: "?ms ! i" by simp
      from mask_assign_in_set [of ?ms em i vs] m i em(2) lv
      have "mask_assign ?ms em vs ! i \<in> set vs" by simp
      with sv obtain h d where "h \<in> set pool" "d \<in> set fraud_domains"
        "mask_assign ?ms em vs ! i = S (email_from_handle h d)" by auto
      with True m i fc(2) sf(2) dfp(2) F P show ?thesis
        by (auto simp: cluster_row_def mask_fill_nth)
    next
      case False
      with i have m: "\<not> ?ms ! i" by simp
      from mask_assign_keep [of ?ms em i vs] m i em(2) lv
      have "mask_assign ?ms em vs ! i = em ! i" by simp
      with False m i fc(2) sf(2) dfp(2) show ?thesis by (simp add: mask_fill_nth)
    qed
    from c0 c1 c2 c3 c4 row fc(2) sf(2) dfp(2) em(2) show ?thesis by simp
  qed
qed

lemma override_loop_rows:
  assumes run: "override_loop E P A F cs df g = Inr (df', g')"
    and ip: "map_of df ''ip'' = Some ipc"
    and fc: "map_of df ''fraud_cluster_id'' = Some fc" "length fc = length ipc"
    and sf: "map_of df ''is_synthetic_fraud'' = Some sf" "length sf = length ipc"
    and dfp: "map_of df ''device_fingerprint'' = Some dfp" "length dfp = length ipc"
    and em: "map_of df ''email'' = Some em" "length em = length ipc"
  shows "\<exists>fc' sf' dfp' em'.
           map_of df' ''ip'' = Some ipc \<and>
           map_of df' ''fraud_cluster_id'' = Some fc' \<and> length fc' = length ipc \<and>
           map_of df' ''is_synthetic_fraud'' = Some sf' \<and> length sf' = length ipc \<and>
           map_of df' ''device_fingerprint'' = Some dfp' \<and> length dfp' = length ipc \<and>
           map_of df' ''email'' = Some em' \<and> length em' = length ipc \<and>
           (\<forall>i < length ipc.
              (\<exists>c \<in> set cs. ipc ! i \<in> set (ips c) \<and>
                 cluster_row P F c (fc' ! i) (sf' ! i) (dfp' ! i) (em' ! i)) \<or>
              ((\<forall>c \<in> set cs. ipc ! i \<notin> set (ips c)) \<and>
                 fc' ! i = fc ! i \<and> sf' ! i = sf ! i \<and> dfp' ! i = dfp ! i \<and> em' ! i = em ! i))"
  using assms
proof (induction cs arbitrary: df g fc sf dfp em)
  case Nil
  then show ?case by simp
next
  case (Cons c cs)
  from Cons.prems(1) obtain df1 g1 where
    step: "override_cluster E P A F c df g = Inr (df1, g1)"
    and rest: "override_loop E P A F cs df1 g1 = Inr (df', g')"
    by (auto split: sum.splits)
  from override_cluster_rows [OF step Cons.prems(2-10)] obtain fc1 sf1 dfp1 em1 where
    ip1: "map_of df1 ''ip'' = Some ipc"
    and fc1: "map_of df1 ''fraud_cluster_id'' = Some fc1" "length fc1 = length ipc"
    and sf1: "map_of df1 ''is_synthetic_fraud'' = Some sf1" "length sf1 = length ipc"
    and dfp1: "map_of df1 ''device_fingerprint'' = Some dfp1" "length dfp1 = length ipc"
    and em1: "map_of df1 ''email'' = Some em1" "length em1 = length ipc"
    and r1: "\<forall>i < length ipc.
              if ipc ! i \<in> set (ips c)
              then cluster_row P F c (fc1 ! i) (sf1 ! i) (dfp1 ! i) (em1 ! i)
              else fc1 ! i = fc ! i \<and> sf1 ! i = sf ! i \<and> dfp1 ! i = dfp ! i \<and> em1 ! i = em ! i"
    by blast
  from Cons.IH [OF rest ip1 fc1 sf1 dfp1 em1] obtain fc' sf' dfp' em' where
    cols: "map_of df' ''ip'' = Some ipc"
      "map_of df' ''fraud_cluster_id'' = Some fc'" "length fc' = length ipc"
      "map_of df' ''is_synthetic_fraud'' = Some sf'" "length sf' = length ipc"
      "map_of df' ''device_fingerprint'' = Some dfp'" "length dfp' = length ipc"
      "map_of df' ''email'' = Some em'" "length em' = length ipc"
    and r2: "\<forall>i < length ipc.
              (\<exists>c \<in> set cs. ipc ! i \<in> set (ips c) \<and>
                 cluster_row P F c (fc' ! i) (sf' ! i) (dfp' ! i) (em' ! i)) \<or>
              ((\<forall>c \<in> set cs. ipc ! i \<notin> set (ips c)) \<and>
                 fc' ! i = fc1 ! i \<and> sf' ! i = sf1 ! i \<and> dfp' ! i = dfp1 ! i \<and>
                 em' ! i = em1 ! i)"
    by blast
  have "(\<exists>c' \<in> set (c # cs). ipc ! i \<in> set (ips c') \<and>
                 cluster_row P F c' (fc' ! i) (sf' ! i) (dfp' ! i) (em' ! i)) \<or>
              ((\<forall>c' \<in> set (c # cs). ipc ! i \<notin> set (ips c')) \<and>
                 fc' ! i = fc ! i \<and> sf' ! i = sf ! i \<and> dfp' ! i = dfp ! i \<and> em' ! i = em ! i)"
    if i: "i < length ipc" for i
  proof -
    from r1 i have a: "if ipc ! i \<in> set (ips c)
              then cluster_row P F c (fc1 ! i) (sf1 ! i) (dfp1 ! i) (em1 ! i)
              else fc1 ! i = fc ! i \<and> sf1 ! i = sf ! i \<and> dfp1 ! i = dfp ! i \<and> em1 ! i = em ! i"
      by blast
    from r2 i have b: "(\<exists>c \<in> set cs. ipc ! i \<in> set (ips c) \<and>
                 cluster_row P F c (fc' ! i) (sf' ! i) (dfp' ! i) (em' ! i)) \<or>
              ((\<forall>c \<in> set cs. ipc ! i \<notin> set (ips c)) \<and>
                 fc' ! i = fc1 ! i \<and> sf' ! i = sf1 ! i \<and> dfp' ! i = dfp1 ! i \<and>
                 em' ! i = em1 ! i)" by blast
    from b show ?thesis
    proof
      assume "\<exists>c \<in> set cs. ipc ! i \<in> set (ips c) \<and>
                 cluster_row P F c (fc' ! i) (sf' ! i) (dfp' ! i) (em' ! i)"
      then show ?thesis by auto
    next
      assume k: "(\<forall>c \<in> set cs. ipc ! i \<notin> set (ips c)) \<and>
                 fc' ! i = fc1 ! i \<and> sf' ! i = sf1 ! i \<and> dfp' ! i = dfp1 ! i \<and>
                 em' ! i = em1 ! i"
      show ?thesis
      proof (cases "ipc ! i \<in> set (ips c)")
        case True
        with a k show ?thesis by simp
      next
        case False
        with a k show ?thesis by simp
      qed
    qed
  qed
  with cols show ?case by blast
qed

section \<open>The base enrichment\<close>

lemma nrows_setcol: "length v = nrows df \<Longrightarrow> nrows (setcol df k v) = nrows df"
  by (cases df) (auto simp: setcol_def nrows_def)

lemma base_user_ids_length: "base_user_ids E df = Inr uids \<Longrightarrow> length uids = nrows df"
  by (auto simp: base_user_ids_def getcol_def split: if_splits option.splits)

lemma base_fingerprints_length: "base_fingerprints E df = Inr fps \<Longrightarrow> length fps = nrows df"
  by (auto simp: base_fingerprints_def getcol_def split: if_splits option.splits)

lemma base_emails_length: "base_emails uids g = Inr (ems, g') \<Longrightarrow> length ems = length uids"
  by (induction uids arbitrary: ems g) (auto split: sum.splits)

lemma base_enrichment_unfold:
  assumes "base_enrichment E df g = Inr (df1, g1)"
  shows "\<exists>ads uids ctr fps cts ems.
           length ads = nrows df \<and> length uids = nrows df \<and> length ctr = nrows df \<and>
           length fps = nrows df \<and> length cts = nrows df \<and> length ems = nrows df \<and>
           df1 = setcol (setcol (setcol (setcol (setcol (setcol df
                   ''ad_id'' (map S ads)) ''user_id'' (map S uids)) ''country'' (map S ctr))
                   ''device_fingerprint'' (map S fps)) ''connection_type'' (map S cts))
                   ''email'' (map S ems)"
proof -
  from assms obtain ads ga uids ctr gb fps cts gc uidc ems where
    a: "choice ALL_ADS (nrows df) g = Inr (ads, ga)"
    and u: "base_user_ids E (setcol df ''ad_id'' (map S ads)) = Inr uids"
    and c: "choice COUNTRIES (nrows df) ga = Inr (ctr, gb)"
    and f: "base_fingerprints E (setcol (setcol (setcol df ''ad_id'' (map S ads))
               ''user_id'' (map S uids)) ''country'' (map S ctr)) = Inr fps"
    and t: "choice CONNECTION_TYPES (nrows df) gb = Inr (cts, gc)"
    and e: "base_emails (map py_str uidc) gc = Inr (ems, g1)"
    and uc: "uidc = map S uids"
    and d: "df1 = setcol (setcol (setcol (setcol (setcol (setcol df
                   ''ad_id'' (map S ads)) ''user_id'' (map S uids)) ''country'' (map S ctr))
                   ''device_fingerprint'' (map S fps)) ''connection_type'' (map S cts))
                   ''email'' (map S ems)"
    by (auto simp: base_enrichment_def Let_def split: sum.splits prod.splits)
  from choice_result [OF a] have la: "length ads = nrows df" by simp
  from base_user_ids_length [OF u] la have lu: "length uids = nrows df"
    by (simp add: nrows_setcol)
  from choice_result [OF c] have lc: "length ctr = nrows df" by simp
  from base_fingerprints_length [OF f] la lu lc have lf: "length fps = nrows df"
    by (simp add: nrows_setcol)
  from choice_result [OF t] have lt: "length cts = nrows df" by simp
  from base_emails_length [OF e] uc lu have le: "length ems = nrows df" by simp
  from la lu lc lf lt le d show ?thesis by blast
qed

section \<open>The whole transform\<close>

lemma enrich_unfold:
  assumes "enrich cfg E df = Some (Inr r)"
  shows "\<exists>g1 g2 g3 g4 g5 g6.
    base_enrichment E df (seed_rng E SEED) = Inr (run_base_df r, g1) \<and>
    select_hubs cfg E (run_base_df r) g1 = Inr (run_hub_ips r, g2) \<and>
    build_clusters (CLUSTER_MIN_SIZE cfg) (CLUSTER_MAX_SIZE cfg) (run_hub_ips r) g2
      = Some (Inr (run_clusters r, g3)) \<and>
    dict_comprehension (\<lambda>c. build_email_pool E ''frauder'' (EMAIL_VARIANTS_PER_CLUSTER cfg))
      (run_clusters r) Map.empty g3 = Inr (run_email_pools r, g4) \<and>
    dict_comprehension (\<lambda>c. target_ads) (run_clusters r) Map.empty g4
      = Inr (run_target_ads r, g5) \<and>
    run_fingerprints r
      = fold (\<lambda>c d. d(cluster_id c \<mapsto> cluster_fingerprint E (ips c))) (run_clusters r) Map.empty \<and>
    override_loop E (run_email_pools r) (run_target_ads r) (run_fingerprints r) (run_clusters r)
      (setcol (setcol (run_base_df r) ''fraud_cluster_id''
                 (replicate (nrows (run_base_df r)) (I 0)))
         ''is_synthetic_fraud''
         (replicate (nrows (setcol (run_base_df r) ''fraud_cluster_id''
                              (replicate (nrows (run_base_df r)) (I 0)))) (B False)))
      g5 = Inr (run_df r, g6)"
  using assms
  by (auto simp: enrich_def Let_def split: sum.splits prod.splits option.splits)

lemma override_cluster_frame:
  assumes "override_cluster E P A F c df g = Inr (df', g')"
    and "k \<notin> {''ad_id'', ''user_id'', ''email'', ''country'', ''device_fingerprint'',
               ''fraud_cluster_id'', ''is_synthetic_fraud''}"
  shows "map_of df' k = map_of df k"
proof (cases "getcol df ''ip''")
  case (Inl e)
  with assms(1) show ?thesis by (simp add: override_cluster_def)
next
  case (Inr ipc)
  then have "map_of df ''ip'' = Some ipc" by simp
  from override_cluster_cases [OF assms(1) this] show ?thesis
    using override_rows_frame [OF _ assms(2)] by blast
qed

lemma override_loop_frame:
  assumes "override_loop E P A F cs df g = Inr (df', g')"
    and "k \<notin> {''ad_id'', ''user_id'', ''email'', ''country'', ''device_fingerprint'',
               ''fraud_cluster_id'', ''is_synthetic_fraud''}"
  shows "map_of df' k = map_of df k"
  using assms(1)
proof (induction cs arbitrary: df g)
  case Nil
  then show ?case by simp
next
  case (Cons c cs)
  from Cons.prems obtain df1 g1 where
    step: "override_cluster E P A F c df g = Inr (df1, g1)"
    and rest: "override_loop E P A F cs df1 g1 = Inr (df', g')"
    by (auto split: sum.splits)
  from Cons.IH [OF rest] override_cluster_frame [OF step assms(2)] show ?case by simp
qed

section \<open>The run on the example\<close>

lemma replicate_num:
  "replicate (numeral k) x = x # replicate (pred_numeral k) x"
  by (simp add: numeral_eq_Suc)

lemma choice_numeral:
  "choice a (numeral v) g =
     (case randint 0 (length a) g of Inl e \<Rightarrow> Inl e
      | Inr (i, g') \<Rightarrow> (case choice a (pred_numeral v) g' of Inl e \<Rightarrow> Inl e
                         | Inr (ys, g'') \<Rightarrow> Inr (a ! i # ys, g'')))"
  by (simp add: numeral_eq_Suc)

lemma choice_noreplace_numeral:
  "choice_noreplace a (numeral v) g =
     (case randint 0 (length a) g of Inl e \<Rightarrow> Inl e
      | Inr (i, g') \<Rightarrow> (case choice_noreplace (take i a @ drop (Suc i) a) (pred_numeral v) g' of
                           Inl e \<Rightarrow> Inl e
                         | Inr (ys, g'') \<Rightarrow> Inr (a ! i # ys, g'')))"
  by (simp add: numeral_eq_Suc)

lemma random_handles_numeral:
  "random_handles (numeral v) g =
     (case random_handle ''u'' 999999 g of Inl e \<Rightarrow> Inl e | Inr (h, g') \<Rightarrow>
     (case random_handles (pred_numeral v) g' of Inl e \<Rightarrow> Inl e | Inr (hs, g'') \<Rightarrow>
        Inr (h # hs, g'')))"
proof -
  have n: "numeral v = Suc (pred_numeral v)" by (rule numeral_eq_Suc)
  show ?thesis by (simp only: n random_handles.simps)
qed

lemma ex_env:
  "sha256_int example_env = (\<lambda>s. 7)" "md5_hexdigest example_env = (\<lambda>s. s)"
  "str_set_slot example_env = (\<lambda>d x. 0)" "cell_set_slot example_env = (\<lambda>d x. 0)"
  "getenv example_env = Map.empty"
  by (simp_all add: example_env_def)

lemma ex_seed: "seed_rng example_env n = example_rng\<lparr>used := 0\<rparr>"
  by (simp add: seed_rng_def example_env_def example_rng_def)

lemma ex_randint: "randint low high (example_rng\<lparr>used := n\<rparr>)
   = (if high \<le> low then Inl ValueError else Inr (low, example_rng\<lparr>used := Suc n\<rparr>))"
  by (simp add: randint_def example_rng_def)

lemma ex1: "base_enrichment example_env example_df (seed_rng example_env SEED)
   = Inr (example_base_df, example_rng\<lparr>used := 8\<rparr>)"
  by (simp add: base_enrichment_def ex_env example_df_def example_base_df_def
     ex_seed ex_randint
     nrows_def ex_randint ALL_ADS_def COUNTRIES_def CONNECTION_TYPES_def domains_def
     base_user_ids_def base_fingerprints_def getcol_def setcol_def choice1_def
     gen_user_id_def gen_fingerprint_def stable_hash_to_int_def email_from_handle_def
     str_int_def str_nat.simps zfill_def cell_at_def
     numeral_2_eq_2 replicate_num Let_def)

lemma ex2: "select_hubs example_config example_env example_base_df (example_rng\<lparr>used := 8\<rparr>)
   = Inr ([I 10], example_rng\<lparr>used := 9\<rparr>)"
proof -
  have "num_hub_ips (FRACTION_FRAUD_IPS script_config) 2 = Inr 1"
    using num_hub_ips_script [of 2] by simp
  then have f: "num_hub_ips (FRACTION_FRAUD_IPS example_config) (Suc (Suc 0)) = Inr (Suc 0)"
    by (simp add: example_config_def numeral_2_eq_2)
  show ?thesis
    by (simp add: select_hubs_def ex_env
        example_base_df_def example_df_def  getcol_def unique_def
        f ex_randint py_list_of_set_def Let_def)
qed

lemma ex3: "build_clusters 2 5 [I 10] (example_rng\<lparr>used := 9\<rparr>)
   = Some (Inr ([\<lparr>cluster_id = 1, ips = [I 10]\<rparr>], example_rng\<lparr>used := 10\<rparr>))"
  by (simp add: build_clusters_def cluster_loop.simps ex_randint)


lemma ex4: "dict_comprehension (\<lambda>c. build_email_pool example_env ''frauder'' 1)
     [\<lparr>cluster_id = 1, ips = [I 10]\<rparr>] Map.empty (example_rng\<lparr>used := 10\<rparr>)
   = Inr ([1 \<mapsto> example_pool], example_rng\<lparr>used := 13\<rparr>)"
  by (simp add: build_email_pool_def plus_variant_def dot_variant_def underscore_variant_def
      ex_randint ex_env py_list_of_set_def unique_def example_pool_def
      str_nat.simps zfill_def replicate_num Let_def)

lemma ex5: "dict_comprehension (\<lambda>c. target_ads)
     [\<lparr>cluster_id = 1, ips = [I 10]\<rparr>] Map.empty (example_rng\<lparr>used := 13\<rparr>)
   = Inr ([1 \<mapsto> [''AD001'']], example_rng\<lparr>used := 15\<rparr>)"
  by (simp add: target_ads_def ex_randint FRAUD_TARGET_ADS_def
      str_nat.simps zfill_def replicate_num upt_rec)

lemma ex6: "fold (\<lambda>c d. d(cluster_id c \<mapsto> cluster_fingerprint example_env (ips c)))
     [\<lparr>cluster_id = 1, ips = [I 10]\<rparr>] Map.empty = [1 \<mapsto> ''fp_00000007'']"
  by (simp add: cluster_fingerprint_def stable_hash_to_int_def ex_env
      str_nat.simps zfill_def replicate_num)


lemma ex_handle: "random_handle ''u'' 999999 (example_rng\<lparr>used := n\<rparr>)
   = Inr (''u000000'', example_rng\<lparr>used := Suc n\<rparr>)"
  by (simp add: random_handle_def ex_randint str_nat.simps zfill_def
      replicate_num)

lemma ex_handles: "random_handles k (example_rng\<lparr>used := n\<rparr>)
   = Inr (replicate k ''u000000'', example_rng\<lparr>used := n + k\<rparr>)"
  by (induction k arbitrary: n) (simp_all add: ex_handle)

lemma ex_sample: "sample_index example_env [0] = Inr []"
proof -
  have f: "\<lfloor>3 / 10 :: rat\<rfloor> = 0" by (simp add: floor_eq_iff)
  show ?thesis by (simp add: sample_index_def py_round_def f Let_def)
qed

lemma ex7: "override_loop example_env [1 \<mapsto> example_pool] [1 \<mapsto> [''AD001'']] [1 \<mapsto> ''fp_00000007'']
     [\<lparr>cluster_id = 1, ips = [I 10]\<rparr>]
     (example_base_df @ [(''fraud_cluster_id'', [I 0, I 0]),
                         (''is_synthetic_fraud'', [B False, B False])])
     (example_rng\<lparr>used := 15\<rparr>)
   = Inr (example_out_df, example_rng\<lparr>used := 69\<rparr>)"
  by (simp add: override_cluster_def override_rows_def mask_any_def isin_def mask_sum_def
      masked_def mask_index_def loc_assign_def loc_fill_def index_assign_def lookup_def
      getcol_def setcol_def example_base_df_def example_out_df_def example_df_def
      example_pool_def fraud_domains_def COUNTRIES_def email_from_handle_def
      ex_handles ex_sample ex_randint nth_append Let_def)


lemma ex_cfg:
  "CLUSTER_MIN_SIZE example_config = 2" "CLUSTER_MAX_SIZE example_config = 5"
  "EMAIL_VARIANTS_PER_CLUSTER example_config = 1"
  by (simp_all add: example_config_def script_config_def)

lemma ex_df3:
  "setcol (setcol example_base_df ''fraud_cluster_id''
             (replicate (nrows example_base_df) (I 0)))
      ''is_synthetic_fraud''
      (replicate (nrows (setcol example_base_df ''fraud_cluster_id''
                           (replicate (nrows example_base_df) (I 0)))) (B False))
   = example_base_df @ [(''fraud_cluster_id'', [I 0, I 0]),
                        (''is_synthetic_fraud'', [B False, B False])]"
  by (simp add: setcol_def nrows_def example_base_df_def example_df_def numeral_2_eq_2)

lemma enrich_example: "enrich example_config example_env example_df = Some (Inr example_run)"
  by (simp only: enrich_def ex_cfg ex1 ex2 ex3 ex4 ex5 ex6 ex_df3 ex7 example_run_def
      Let_def sum.case prod.case option.case)

section \<open>The frame of the override engine\<close>

lemma base_enrichment_frame:
  assumes "base_enrichment E df g = Inr (df1, g1)"
    and "k \<notin> {''ad_id'', ''user_id'', ''country'', ''device_fingerprint'',
               ''connection_type'', ''email''}"
  shows "map_of df1 k = map_of df k"
proof -
  from base_enrichment_unfold [OF assms(1)] obtain ads uids ctr fps cts ems where
    "df1 = setcol (setcol (setcol (setcol (setcol (setcol df
                   ''ad_id'' (map S ads)) ''user_id'' (map S uids)) ''country'' (map S ctr))
                   ''device_fingerprint'' (map S fps)) ''connection_type'' (map S cts))
                   ''email'' (map S ems)" by blast
  with assms(2) show ?thesis by simp
qed

lemma enrich_frame:
  assumes "enrich cfg E df = Some (Inr r)"
    and "k \<notin> {''ad_id'', ''user_id'', ''email'', ''country'', ''device_fingerprint'',
               ''fraud_cluster_id'', ''is_synthetic_fraud''}"
  shows "map_of (run_df r) k = map_of (run_base_df r) k"
proof -
  from enrich_unfold [OF assms(1)] obtain g5 g6 where
    "override_loop E (run_email_pools r) (run_target_ads r) (run_fingerprints r) (run_clusters r)
      (setcol (setcol (run_base_df r) ''fraud_cluster_id''
                 (replicate (nrows (run_base_df r)) (I 0)))
         ''is_synthetic_fraud''
         (replicate (nrows (setcol (run_base_df r) ''fraud_cluster_id''
                              (replicate (nrows (run_base_df r)) (I 0)))) (B False)))
      g5 = Inr (run_df r, g6)" by blast
  from override_loop_frame [OF this assms(2)] assms(2) show ?thesis by simp
qed

text \<open>
  C9. In a run that returns, the override engine (lines 161-197) leaves every column
  other than \<open>ad_id\<close>, \<open>user_id\<close>, \<open>email\<close>, \<open>country\<close>, \<open>device_fingerprint\<close>,
  \<open>fraud_cluster_id\<close> and \<open>is_synthetic_fraud\<close> as the base enrichment left it, for
  every row, inside a cluster or not. In particular \<open>connection_type\<close> keeps its
  baseline value and the eight input columns keep the cells that were read.
\<close>

theorem override_engine_frame:
  assumes "enrich cfg E df = Some (Inr r)"
  shows "(\<forall>k. k \<notin> {''ad_id'', ''user_id'', ''email'', ''country'', ''device_fingerprint'',
                    ''fraud_cluster_id'', ''is_synthetic_fraud''}
            \<longrightarrow> map_of (run_df r) k = map_of (run_base_df r) k) \<and>
         map_of (run_df r) ''connection_type'' = map_of (run_base_df r) ''connection_type'' \<and>
         (\<forall>k \<in> {''ip'', ''app'', ''device'', ''os'', ''channel'', ''click_time'',
                  ''attributed_time'', ''is_attributed''}.
            map_of (run_df r) k = map_of (run_base_df r) k \<and> map_of (run_df r) k = map_of df k)"
proof -
  from enrich_unfold [OF assms] obtain g1 where
    b: "base_enrichment E df (seed_rng E SEED) = Inr (run_base_df r, g1)" by blast
  have 1: "\<forall>k. k \<notin> {''ad_id'', ''user_id'', ''email'', ''country'', ''device_fingerprint'',
                    ''fraud_cluster_id'', ''is_synthetic_fraud''}
            \<longrightarrow> map_of (run_df r) k = map_of (run_base_df r) k"
    using enrich_frame [OF assms] by blast
  have 2: "map_of (run_df r) ''connection_type'' = map_of (run_base_df r) ''connection_type''"
    by (rule enrich_frame [OF assms]) simp
  have 3: "map_of (run_df r) k = map_of (run_base_df r) k \<and> map_of (run_df r) k = map_of df k"
    if "k \<in> {''ip'', ''app'', ''device'', ''os'', ''channel'', ''click_time'',
                  ''attributed_time'', ''is_attributed''}" for k
  proof -
    from that have "map_of (run_df r) k = map_of (run_base_df r) k"
      by (intro enrich_frame [OF assms]) auto
    moreover from that have "map_of (run_base_df r) k = map_of df k"
      by (intro base_enrichment_frame [OF b]) auto
    ultimately show ?thesis by simp
  qed
  from 1 2 3 show ?thesis by blast
qed

theorem override_engine_frame_witness:
  "map_of (run_df example_run) ''connection_type'' = Some [S ''wifi'', S ''wifi''] \<and>
   map_of (run_df example_run) ''ip'' = Some [I 10, I 20] \<and>
   map_of (run_df example_run) ''channel'' = map_of example_df ''channel''"
proof -
  have b: "map_of (run_base_df example_run) ''connection_type'' = Some [S ''wifi'', S ''wifi'']"
    "map_of example_df ''ip'' = Some [I 10, I 20]"
    by (simp_all add: example_run_def example_base_df_def example_df_def)
  note t = override_engine_frame [OF enrich_example]
  from t have c: "map_of (run_df example_run) ''connection_type''
                    = map_of (run_base_df example_run) ''connection_type''" by (elim conjE)
  from t have a: "\<forall>k \<in> {''ip'', ''app'', ''device'', ''os'', ''channel'', ''click_time'',
                  ''attributed_time'', ''is_attributed''}.
            map_of (run_df example_run) k = map_of (run_base_df example_run) k \<and>
            map_of (run_df example_run) k = map_of example_df k" by (elim conjE)
  have "''ip'' \<in> {''ip'', ''app'', ''device'', ''os'', ''channel'', ''click_time'',
                  ''attributed_time'', ''is_attributed''}" by simp
  from bspec [OF a this] have i: "map_of (run_df example_run) ''ip'' = map_of example_df ''ip''"
    by (rule conjunct2)
  have "''channel'' \<in> {''ip'', ''app'', ''device'', ''os'', ''channel'', ''click_time'',
                  ''attributed_time'', ''is_attributed''}" by simp
  from bspec [OF a this]
  have h: "map_of (run_df example_run) ''channel'' = map_of example_df ''channel''"
    by (rule conjunct2)
  from c b(1) have "map_of (run_df example_run) ''connection_type'' = Some [S ''wifi'', S ''wifi'']"
    by (rule trans)
  moreover from i b(2) have "map_of (run_df example_run) ''ip'' = Some [I 10, I 20]"
    by (rule trans)
  ultimately show ?thesis using h by (intro conjI)
qed

section \<open>The rows of a run\<close>

lemma rectangular_length:
  "rectangular df \<Longrightarrow> map_of df k = Some c \<Longrightarrow> length c = nrows df"
  by (auto simp: rectangular_def dest!: map_of_SomeD)

lemma select_hubs_distinct:
  "select_hubs cfg E df g = Inr (hub, g') \<Longrightarrow> distinct hub"
  by (auto simp: select_hubs_def Let_def split: sum.splits)

lemma select_hubs_ip:
  "select_hubs cfg E df g = Inr (hub, g') \<Longrightarrow> \<exists>ipc. map_of df ''ip'' = Some ipc"
  by (auto simp: select_hubs_def Let_def split: sum.splits)

lemma enrich_clusters:
  assumes run: "enrich cfg E df = Some (Inr r)"
    and m: "1 \<le> CLUSTER_MIN_SIZE cfg" "CLUSTER_MIN_SIZE cfg \<le> CLUSTER_MAX_SIZE cfg"
  shows "concat (map ips (run_clusters r)) = run_hub_ips r"
    and "distinct (run_hub_ips r)"
    and "\<forall>i j. i < j \<and> j < length (run_clusters r) \<longrightarrow>
           set (ips (run_clusters r ! i)) \<inter> set (ips (run_clusters r ! j)) = {}"
    and "map cluster_id (run_clusters r) = [1..<length (run_clusters r) + 1]"
proof -
  from enrich_unfold [OF run] obtain g1 g2 g3 where
    sh: "select_hubs cfg E (run_base_df r) g1 = Inr (run_hub_ips r, g2)"
    and bc: "build_clusters (CLUSTER_MIN_SIZE cfg) (CLUSTER_MAX_SIZE cfg) (run_hub_ips r) g2
      = Some (Inr (run_clusters r, g3))" by blast
  from select_hubs_distinct [OF sh] show d: "distinct (run_hub_ips r)" .
  from build_clusters_props [OF m d, of g2] bc
  show "concat (map ips (run_clusters r)) = run_hub_ips r"
    and "\<forall>i j. i < j \<and> j < length (run_clusters r) \<longrightarrow>
           set (ips (run_clusters r ! i)) \<inter> set (ips (run_clusters r ! j)) = {}"
    and "map cluster_id (run_clusters r) = [1..<length (run_clusters r) + 1]"
    by auto
qed

lemma cluster_unique:
  assumes dj: "\<forall>i j. i < j \<and> j < length cs \<longrightarrow> set (ips (cs ! i)) \<inter> set (ips (cs ! j)) = {}"
    and "c \<in> set cs" "c' \<in> set cs" "x \<in> set (ips c)" "x \<in> set (ips c')"
  shows "c = c'"
proof -
  from assms(2,3) obtain a b where a: "a < length cs" "cs ! a = c"
    and b: "b < length cs" "cs ! b = c'" by (auto simp: in_set_conv_nth)
  have "a = b"
  proof (rule ccontr)
    assume "a \<noteq> b"
    then consider "a < b" | "b < a" by linarith
    then show False
    proof cases
      case 1
      with dj b(1) have "set (ips (cs ! a)) \<inter> set (ips (cs ! b)) = {}" by blast
      with a b assms(4,5) show False by auto
    next
      case 2
      with dj a(1) have "set (ips (cs ! b)) \<inter> set (ips (cs ! a)) = {}" by blast
      with a b assms(4,5) show False by auto
    qed
  qed
  with a b show ?thesis by simp
qed

lemma cluster_id_pos:
  "map cluster_id cs = [1..<length cs + 1] \<Longrightarrow> c \<in> set cs \<Longrightarrow> 1 \<le> cluster_id c"
proof -
  assume m: "map cluster_id cs = [1..<length cs + 1]" and c: "c \<in> set cs"
  from c have "cluster_id c \<in> set (map cluster_id cs)" by simp
  then have "cluster_id c \<in> set [1..<length cs + 1]" by (simp only: m)
  then have "cluster_id c \<in> {1..<length cs + 1}" by (simp only: set_upt)
  then show ?thesis by (simp only: atLeastLessThan_iff)
qed

lemma enrich_rows:
  assumes run: "enrich cfg E df = Some (Inr r)" and rect: "rectangular df"
  shows "\<exists>ipc fc sf dfp em dfp0 em0.
           map_of df ''ip'' = Some ipc \<and> map_of (run_df r) ''ip'' = Some ipc \<and>
           length ipc = nrows df \<and>
           map_of (run_df r) ''fraud_cluster_id'' = Some fc \<and> length fc = nrows df \<and>
           map_of (run_df r) ''is_synthetic_fraud'' = Some sf \<and> length sf = nrows df \<and>
           map_of (run_df r) ''device_fingerprint'' = Some dfp \<and> length dfp = nrows df \<and>
           map_of (run_df r) ''email'' = Some em \<and> length em = nrows df \<and>
           map_of (run_base_df r) ''device_fingerprint'' = Some dfp0 \<and>
           map_of (run_base_df r) ''email'' = Some em0 \<and>
           (\<forall>i < nrows df.
              (\<exists>c \<in> set (run_clusters r). ipc ! i \<in> set (ips c) \<and>
                 cluster_row (run_email_pools r) (run_fingerprints r) c
                   (fc ! i) (sf ! i) (dfp ! i) (em ! i)) \<or>
              ((\<forall>c \<in> set (run_clusters r). ipc ! i \<notin> set (ips c)) \<and>
                 fc ! i = I 0 \<and> sf ! i = B False \<and> dfp ! i = dfp0 ! i \<and> em ! i = em0 ! i))"
proof -
  let ?b = "run_base_df r"
  let ?n = "nrows df"
  from enrich_unfold [OF run] obtain g1 g2 g5 g6 where
    b: "base_enrichment E df (seed_rng E SEED) = Inr (?b, g1)"
    and sh: "select_hubs cfg E ?b g1 = Inr (run_hub_ips r, g2)"
    and lp: "override_loop E (run_email_pools r) (run_target_ads r) (run_fingerprints r)
      (run_clusters r)
      (setcol (setcol ?b ''fraud_cluster_id'' (replicate (nrows ?b) (I 0)))
         ''is_synthetic_fraud''
         (replicate (nrows (setcol ?b ''fraud_cluster_id'' (replicate (nrows ?b) (I 0))))
            (B False)))
      g5 = Inr (run_df r, g6)" by blast
  from base_enrichment_unfold [OF b] obtain ads uids ctr fps cts ems where
    l: "length ads = ?n" "length uids = ?n" "length ctr = ?n" "length fps = ?n"
       "length cts = ?n" "length ems = ?n"
    and d: "?b = setcol (setcol (setcol (setcol (setcol (setcol df
                   ''ad_id'' (map S ads)) ''user_id'' (map S uids)) ''country'' (map S ctr))
                   ''device_fingerprint'' (map S fps)) ''connection_type'' (map S cts))
                   ''email'' (map S ems)" by blast
  have nb: "nrows ?b = ?n" by (subst d) (simp add: nrows_setcol l)
  from select_hubs_ip [OF sh] obtain ipc where ip1: "map_of ?b ''ip'' = Some ipc" by blast
  have "map_of ?b ''ip'' = map_of df ''ip''" by (rule base_enrichment_frame [OF b]) simp
  with ip1 have ip0: "map_of df ''ip'' = Some ipc" by simp
  from rectangular_length [OF rect ip0] have li: "length ipc = ?n" .
  have dfp0: "map_of ?b ''device_fingerprint'' = Some (map S fps)" by (subst d) simp
  have em0: "map_of ?b ''email'' = Some (map S ems)" by (subst d) simp
  let ?d2 = "setcol ?b ''fraud_cluster_id'' (replicate (nrows ?b) (I 0))"
  let ?d3 = "setcol ?d2 ''is_synthetic_fraud'' (replicate (nrows ?d2) (B False))"
  have n2: "nrows (setcol ?b ''fraud_cluster_id'' (replicate ?n (I 0))) = ?n"
    by (simp add: nrows_setcol nb)
  have c3: "map_of ?d3 ''ip'' = Some ipc"
    "map_of ?d3 ''fraud_cluster_id'' = Some (replicate ?n (I 0))"
    "map_of ?d3 ''is_synthetic_fraud'' = Some (replicate ?n (B False))"
    "map_of ?d3 ''device_fingerprint'' = Some (map S fps)"
    "map_of ?d3 ''email'' = Some (map S ems)"
    using ip1 dfp0 em0 by (simp_all add: n2 nb)
  have l3: "length (replicate ?n (I 0)) = length ipc"
    "length (replicate ?n (B False)) = length ipc"
    "length (map S fps) = length ipc" "length (map S ems) = length ipc"
    using li l by simp_all
  from override_loop_rows [OF lp c3(1) c3(2) l3(1) c3(3) l3(2) c3(4) l3(3) c3(5) l3(4)]
  obtain fc sf dfp em where
    cols: "map_of (run_df r) ''ip'' = Some ipc"
      "map_of (run_df r) ''fraud_cluster_id'' = Some fc" "length fc = length ipc"
      "map_of (run_df r) ''is_synthetic_fraud'' = Some sf" "length sf = length ipc"
      "map_of (run_df r) ''device_fingerprint'' = Some dfp" "length dfp = length ipc"
      "map_of (run_df r) ''email'' = Some em" "length em = length ipc"
    and rows: "\<forall>i < length ipc.
              (\<exists>c \<in> set (run_clusters r). ipc ! i \<in> set (ips c) \<and>
                 cluster_row (run_email_pools r) (run_fingerprints r) c
                   (fc ! i) (sf ! i) (dfp ! i) (em ! i)) \<or>
              ((\<forall>c \<in> set (run_clusters r). ipc ! i \<notin> set (ips c)) \<and>
                 fc ! i = replicate ?n (I 0) ! i \<and> sf ! i = replicate ?n (B False) ! i \<and>
                 dfp ! i = map S fps ! i \<and> em ! i = map S ems ! i)"
    by blast
  have "\<forall>i < nrows df.
              (\<exists>c \<in> set (run_clusters r). ipc ! i \<in> set (ips c) \<and>
                 cluster_row (run_email_pools r) (run_fingerprints r) c
                   (fc ! i) (sf ! i) (dfp ! i) (em ! i)) \<or>
              ((\<forall>c \<in> set (run_clusters r). ipc ! i \<notin> set (ips c)) \<and>
                 fc ! i = I 0 \<and> sf ! i = B False \<and> dfp ! i = map S fps ! i \<and>
                 em ! i = map S ems ! i)"
  proof (intro allI impI)
    fix i assume i: "i < nrows df"
    with rows li have "(\<exists>c \<in> set (run_clusters r). ipc ! i \<in> set (ips c) \<and>
                 cluster_row (run_email_pools r) (run_fingerprints r) c
                   (fc ! i) (sf ! i) (dfp ! i) (em ! i)) \<or>
              ((\<forall>c \<in> set (run_clusters r). ipc ! i \<notin> set (ips c)) \<and>
                 fc ! i = replicate ?n (I 0) ! i \<and> sf ! i = replicate ?n (B False) ! i \<and>
                 dfp ! i = map S fps ! i \<and> em ! i = map S ems ! i)" by simp
    with i show "(\<exists>c \<in> set (run_clusters r). ipc ! i \<in> set (ips c) \<and>
                 cluster_row (run_email_pools r) (run_fingerprints r) c
                   (fc ! i) (sf ! i) (dfp ! i) (em ! i)) \<or>
              ((\<forall>c \<in> set (run_clusters r). ipc ! i \<notin> set (ips c)) \<and>
                 fc ! i = I 0 \<and> sf ! i = B False \<and> dfp ! i = map S fps ! i \<and>
                 em ! i = map S ems ! i)" by simp
  qed
  with ip0 cols li dfp0 em0 show ?thesis by (metis (no_types, lifting))
qed


lemma example_rectangular: "rectangular example_df"
  by (simp add: rectangular_def example_df_def nrows_def)

text \<open>
  C2. In a run that returns, on a frame as \<^verbatim>\<open>read_csv\<close> gives it and with a cluster size
  range \<open>1 \<le> m \<le> M\<close>: in every row \<open>fraud_cluster_id\<close> is a number \<open>n \<ge> 0\<close> and
  \<open>is_synthetic_fraud\<close> is a boolean, with \<open>n > 0\<close> exactly when the flag is true; a row
  whose IP is in the hub block of a cluster carries the id of that cluster and the flag
  true; a row whose IP is in no block carries the id 0 and the flag false.
\<close>

theorem cluster_consistency:
  assumes "enrich cfg E df = Some (Inr r)" and "rectangular df"
    and "1 \<le> CLUSTER_MIN_SIZE cfg" "CLUSTER_MIN_SIZE cfg \<le> CLUSTER_MAX_SIZE cfg"
  shows "\<exists>ipc fc sf.
           map_of (run_df r) ''ip'' = Some ipc \<and> length ipc = nrows df \<and>
           map_of (run_df r) ''fraud_cluster_id'' = Some fc \<and> length fc = nrows df \<and>
           map_of (run_df r) ''is_synthetic_fraud'' = Some sf \<and> length sf = nrows df \<and>
           (\<forall>i < nrows df.
              (\<exists>n b. fc ! i = I (int n) \<and> sf ! i = B b \<and> (0 < n \<longleftrightarrow> b)) \<and>
              (\<forall>c \<in> set (run_clusters r). ipc ! i \<in> set (ips c) \<longrightarrow>
                 fc ! i = I (int (cluster_id c)) \<and> sf ! i = B True) \<and>
              ((\<forall>c \<in> set (run_clusters r). ipc ! i \<notin> set (ips c)) \<longrightarrow>
                 fc ! i = I 0 \<and> sf ! i = B False))"
proof -
  let ?cs = "run_clusters r"
  from enrich_rows [OF assms(1,2)] obtain ipc fc sf dfp em dfp0 em0 where
    cols: "map_of (run_df r) ''ip'' = Some ipc" "length ipc = nrows df"
      "map_of (run_df r) ''fraud_cluster_id'' = Some fc" "length fc = nrows df"
      "map_of (run_df r) ''is_synthetic_fraud'' = Some sf" "length sf = nrows df"
    and rows: "\<forall>i < nrows df.
              (\<exists>c \<in> set ?cs. ipc ! i \<in> set (ips c) \<and>
                 cluster_row (run_email_pools r) (run_fingerprints r) c
                   (fc ! i) (sf ! i) (dfp ! i) (em ! i)) \<or>
              ((\<forall>c \<in> set ?cs. ipc ! i \<notin> set (ips c)) \<and>
                 fc ! i = I 0 \<and> sf ! i = B False \<and> dfp ! i = dfp0 ! i \<and> em ! i = em0 ! i)"
    by blast
  note cl = enrich_clusters [OF assms(1,3,4)]
  have "(\<exists>n b. fc ! i = I (int n) \<and> sf ! i = B b \<and> (0 < n \<longleftrightarrow> b)) \<and>
              (\<forall>c \<in> set ?cs. ipc ! i \<in> set (ips c) \<longrightarrow>
                 fc ! i = I (int (cluster_id c)) \<and> sf ! i = B True) \<and>
              ((\<forall>c \<in> set ?cs. ipc ! i \<notin> set (ips c)) \<longrightarrow>
                 fc ! i = I 0 \<and> sf ! i = B False)"
    if i: "i < nrows df" for i
  proof -
    from rows i consider
      (hit) c where "c \<in> set ?cs" "ipc ! i \<in> set (ips c)"
        "cluster_row (run_email_pools r) (run_fingerprints r) c (fc ! i) (sf ! i) (dfp ! i) (em ! i)"
      | (miss) "\<forall>c \<in> set ?cs. ipc ! i \<notin> set (ips c)" "fc ! i = I 0" "sf ! i = B False"
      by blast
    then show ?thesis
    proof cases
      case hit
      from hit(3) have v: "fc ! i = I (int (cluster_id c))" "sf ! i = B True"
        by (simp_all add: cluster_row_def)
      from cluster_id_pos [OF cl(4) hit(1)] have p: "0 < cluster_id c" by simp
      have u: "c' = c" if "c' \<in> set ?cs" "ipc ! i \<in> set (ips c')" for c'
        using cluster_unique [OF cl(3) that(1) hit(1) that(2) hit(2)] .
      from v p have "\<exists>n b. fc ! i = I (int n) \<and> sf ! i = B b \<and> (0 < n \<longleftrightarrow> b)" by blast
      moreover from u v have "\<forall>c' \<in> set ?cs. ipc ! i \<in> set (ips c') \<longrightarrow>
                 fc ! i = I (int (cluster_id c')) \<and> sf ! i = B True" by blast
      moreover from hit(1,2) have "\<not> (\<forall>c \<in> set ?cs. ipc ! i \<notin> set (ips c))" by blast
      ultimately show ?thesis by blast
    next
      case miss
      from miss(2,3) have "fc ! i = I (int 0) \<and> sf ! i = B False \<and> ((0::nat) < 0 \<longleftrightarrow> False)"
        by simp
      then have "\<exists>n b. fc ! i = I (int n) \<and> sf ! i = B b \<and> (0 < n \<longleftrightarrow> b)" by blast
      with miss show ?thesis by blast
    qed
  qed
  with cols show ?thesis by blast
qed

theorem cluster_consistency_witness:
  "\<exists>ipc fc sf.
           map_of (run_df example_run) ''ip'' = Some ipc \<and> length ipc = nrows example_df \<and>
           map_of (run_df example_run) ''fraud_cluster_id'' = Some fc \<and>
           length fc = nrows example_df \<and>
           map_of (run_df example_run) ''is_synthetic_fraud'' = Some sf \<and>
           length sf = nrows example_df \<and>
           (\<forall>i < nrows example_df.
              (\<exists>n b. fc ! i = I (int n) \<and> sf ! i = B b \<and> (0 < n \<longleftrightarrow> b)) \<and>
              (\<forall>c \<in> set (run_clusters example_run). ipc ! i \<in> set (ips c) \<longrightarrow>
                 fc ! i = I (int (cluster_id c)) \<and> sf ! i = B True) \<and>
              ((\<forall>c \<in> set (run_clusters example_run). ipc ! i \<notin> set (ips c)) \<longrightarrow>
                 fc ! i = I 0 \<and> sf ! i = B False))"
proof -
  have m: "1 \<le> CLUSTER_MIN_SIZE example_config"
    "CLUSTER_MIN_SIZE example_config \<le> CLUSTER_MAX_SIZE example_config"
    by (simp_all add: ex_cfg)
  show ?thesis by (rule cluster_consistency [OF enrich_example example_rectangular m])
qed

section \<open>The email of a fraud row\<close>

text \<open>
  C4, as the code has it. In a run that returns on a frame as \<^verbatim>\<open>read_csv\<close> gives it,
  the email of every row with \<open>fraud_cluster_id = n > 0\<close> is \<open>handle@domain\<close> with the
  handle in the email pool stored for cluster \<open>n\<close> and the domain in the list of line
  184, \<open>gmail.com\<close>, \<open>outlook.com\<close>, \<open>mail.ru\<close>, \<open>yahoo.com\<close>. That list is not the
  baseline list (it holds \<open>mail.ru\<close>, which the baseline list does not), but it shares
  three of its four domains with it.
\<close>

theorem fraud_email_shape:
  assumes "enrich cfg E df = Some (Inr r)" and "rectangular df"
  shows "\<exists>fc em.
           map_of (run_df r) ''fraud_cluster_id'' = Some fc \<and> length fc = nrows df \<and>
           map_of (run_df r) ''email'' = Some em \<and> length em = nrows df \<and>
           (\<forall>i < nrows df. \<forall>n. fc ! i = I (int n) \<and> 0 < n \<longrightarrow>
              (\<exists>pool h d. run_email_pools r n = Some pool \<and> h \<in> set pool \<and>
                 d \<in> set fraud_domains \<and> em ! i = S (h @ ''@'' @ d))) \<and>
           fraud_domains = [''gmail.com'', ''outlook.com'', ''mail.ru'', ''yahoo.com''] \<and>
           ''mail.ru'' \<notin> set domains"
proof -
  from enrich_rows [OF assms] obtain ipc fc sf dfp em dfp0 em0 where
    cols: "map_of (run_df r) ''fraud_cluster_id'' = Some fc" "length fc = nrows df"
      "map_of (run_df r) ''email'' = Some em" "length em = nrows df"
    and rows: "\<forall>i < nrows df.
              (\<exists>c \<in> set (run_clusters r). ipc ! i \<in> set (ips c) \<and>
                 cluster_row (run_email_pools r) (run_fingerprints r) c
                   (fc ! i) (sf ! i) (dfp ! i) (em ! i)) \<or>
              ((\<forall>c \<in> set (run_clusters r). ipc ! i \<notin> set (ips c)) \<and>
                 fc ! i = I 0 \<and> sf ! i = B False \<and> dfp ! i = dfp0 ! i \<and> em ! i = em0 ! i)"
    by blast
  have "\<exists>pool h d. run_email_pools r n = Some pool \<and> h \<in> set pool \<and>
                 d \<in> set fraud_domains \<and> em ! i = S (h @ ''@'' @ d)"
    if i: "i < nrows df" and n: "fc ! i = I (int n)" "0 < n" for i n
  proof -
    from rows i n obtain c where
      "cluster_row (run_email_pools r) (run_fingerprints r) c (fc ! i) (sf ! i) (dfp ! i) (em ! i)"
      by force
    with n(1) show ?thesis by (auto simp: cluster_row_def email_from_handle_def)
  qed
  moreover have "fraud_domains = [''gmail.com'', ''outlook.com'', ''mail.ru'', ''yahoo.com'']"
    by (simp add: fraud_domains_def)
  moreover have "''mail.ru'' \<notin> set domains" by (simp add: domains_def)
  ultimately show ?thesis using cols by blast
qed

theorem fraud_email_shape_witness:
  "\<exists>fc em.
           map_of (run_df example_run) ''fraud_cluster_id'' = Some fc \<and>
           length fc = nrows example_df \<and>
           map_of (run_df example_run) ''email'' = Some em \<and> length em = nrows example_df \<and>
           (\<forall>i < nrows example_df. \<forall>n. fc ! i = I (int n) \<and> 0 < n \<longrightarrow>
              (\<exists>pool h d. run_email_pools example_run n = Some pool \<and> h \<in> set pool \<and>
                 d \<in> set fraud_domains \<and> em ! i = S (h @ ''@'' @ d))) \<and>
           fraud_domains = [''gmail.com'', ''outlook.com'', ''mail.ru'', ''yahoo.com''] \<and>
           ''mail.ru'' \<notin> set domains"
  by (rule fraud_email_shape [OF enrich_example example_rectangular])

text \<open>
  C4 as stated fails: the domain list of the fraud rows and the baseline list are not
  disjoint. They share \<open>gmail.com\<close>, \<open>outlook.com\<close> and \<open>yahoo.com\<close>, and in the run on
  the example the fraud row and the baseline row both end in \<open>@gmail.com\<close>.
\<close>

theorem fraud_domains_counterexample:
  "enrich example_config example_env example_df = Some (Inr example_run) \<and>
   set fraud_domains \<inter> set domains = {''gmail.com'', ''outlook.com'', ''yahoo.com''} \<and>
   map_of (run_df example_run) ''fraud_cluster_id'' = Some [I 1, I 0] \<and>
   map_of (run_df example_run) ''email''
     = Some [S ''frauder000@gmail.com'', S ''user000007@gmail.com'']"
  using enrich_example
  by (auto simp: fraud_domains_def domains_def example_run_def example_out_df_def example_df_def)

section \<open>The shared fingerprint of a cluster\<close>

lemma fold_dict_other:
  "k \<notin> cluster_id ` set cs \<Longrightarrow> fold (\<lambda>c d. d(cluster_id c \<mapsto> f c)) cs m k = m k"
  by (induction cs arbitrary: m) auto

lemma fold_dict_lookup:
  "distinct (map cluster_id cs) \<Longrightarrow> c \<in> set cs \<Longrightarrow>
     fold (\<lambda>c d. d(cluster_id c \<mapsto> f c)) cs m (cluster_id c) = Some (f c)"
proof (induction cs arbitrary: m)
  case Nil
  then show ?case by simp
next
  case (Cons x xs)
  show ?case
  proof (cases "c = x")
    case True
    with Cons.prems have n: "cluster_id x \<notin> cluster_id ` set xs" by auto
    have "fold (\<lambda>c d. d(cluster_id c \<mapsto> f c)) (x # xs) m (cluster_id x)
            = fold (\<lambda>c d. d(cluster_id c \<mapsto> f c)) xs (m(cluster_id x \<mapsto> f x)) (cluster_id x)"
      by (simp only: fold_simps comp_def)
    also have "\<dots> = (m(cluster_id x \<mapsto> f x)) (cluster_id x)"
      by (rule fold_dict_other [OF n])
    also have "\<dots> = Some (f x)" by simp
    finally show ?thesis unfolding True .
  next
    case False
    with Cons show ?thesis by simp
  qed
qed

text \<open>
  C6, as the code has it. In a run that returns (on a frame as \<^verbatim>\<open>read_csv\<close> gives it, with
  a size range \<open>1 \<le> m \<le> M\<close>) the fingerprint stored for a cluster is \<open>fp_\<close> and the
  eight digits of the SHA-256 of the cluster's IPs, joined by \<open>|\<close> in the order of the
  cluster's block, modulo \<open>10^8\<close>; every row of the cluster carries it. It is a function
  of the block as a sequence, not of the set of its IPs.
\<close>

theorem cluster_fingerprint_of_block:
  assumes "enrich cfg E df = Some (Inr r)" and "rectangular df"
    and "1 \<le> CLUSTER_MIN_SIZE cfg" "CLUSTER_MIN_SIZE cfg \<le> CLUSTER_MAX_SIZE cfg"
  shows "(\<forall>c \<in> set (run_clusters r).
            run_fingerprints r (cluster_id c) = Some (cluster_fingerprint E (ips c)) \<and>
            cluster_fingerprint E (ips c)
              = ''fp_'' @ zfill 8 (str_nat (sha256_int E (join ''|'' (map py_str (ips c)))
                                            mod 10 ^ 8))) \<and>
         (\<exists>ipc dfp. map_of (run_df r) ''ip'' = Some ipc \<and>
            map_of (run_df r) ''device_fingerprint'' = Some dfp \<and>
            (\<forall>i < nrows df. \<forall>c \<in> set (run_clusters r). ipc ! i \<in> set (ips c) \<longrightarrow>
               dfp ! i = S (cluster_fingerprint E (ips c))))"
proof -
  let ?cs = "run_clusters r"
  note cl = enrich_clusters [OF assms(1,3,4)]
  from cl(4) have di: "distinct (map cluster_id ?cs)" by simp
  from enrich_unfold [OF assms(1)] have
    f: "run_fingerprints r
      = fold (\<lambda>c d. d(cluster_id c \<mapsto> cluster_fingerprint E (ips c))) ?cs Map.empty" by blast
  have fp: "run_fingerprints r (cluster_id c) = Some (cluster_fingerprint E (ips c))"
    if "c \<in> set ?cs" for c
    by (subst f) (rule fold_dict_lookup [OF di that])
  from enrich_rows [OF assms(1,2)] obtain ipc fc sf dfp em dfp0 em0 where
    cols: "map_of (run_df r) ''ip'' = Some ipc"
      "map_of (run_df r) ''device_fingerprint'' = Some dfp"
    and rows: "\<forall>i < nrows df.
              (\<exists>c \<in> set ?cs. ipc ! i \<in> set (ips c) \<and>
                 cluster_row (run_email_pools r) (run_fingerprints r) c
                   (fc ! i) (sf ! i) (dfp ! i) (em ! i)) \<or>
              ((\<forall>c \<in> set ?cs. ipc ! i \<notin> set (ips c)) \<and>
                 fc ! i = I 0 \<and> sf ! i = B False \<and> dfp ! i = dfp0 ! i \<and> em ! i = em0 ! i)"
    by blast
  have row: "dfp ! i = S (cluster_fingerprint E (ips c))"
    if i: "i < nrows df" and c: "c \<in> set ?cs" "ipc ! i \<in> set (ips c)" for i c
  proof -
    from rows i c obtain c0 where c0: "c0 \<in> set ?cs" "ipc ! i \<in> set (ips c0)"
      "cluster_row (run_email_pools r) (run_fingerprints r) c0 (fc ! i) (sf ! i) (dfp ! i) (em ! i)"
      by blast
    from cluster_unique [OF cl(3) c(1) c0(1) c(2) c0(2)] have "c = c0" .
    with c0(3) fp [OF c(1)] show ?thesis by (simp add: cluster_row_def)
  qed
  have "cluster_fingerprint E (ips c)
              = ''fp_'' @ zfill 8 (str_nat (sha256_int E (join ''|'' (map py_str (ips c)))
                                            mod 10 ^ 8))" for c
    by (simp add: cluster_fingerprint_def stable_hash_to_int_def)
  with fp row cols show ?thesis by blast
qed

theorem cluster_fingerprint_of_block_witness:
  "run_fingerprints example_run 1 = Some (cluster_fingerprint example_env [I 10]) \<and>
   cluster_fingerprint example_env [I 10]
     = ''fp_'' @ zfill 8 (str_nat (sha256_int example_env (join ''|'' (map py_str [I 10]))
                                   mod 10 ^ 8)) \<and>
   (\<exists>ipc dfp. map_of (run_df example_run) ''ip'' = Some ipc \<and>
      map_of (run_df example_run) ''device_fingerprint'' = Some dfp \<and>
      (\<forall>i < nrows example_df. \<forall>c \<in> set (run_clusters example_run).
         ipc ! i \<in> set (ips c) \<longrightarrow> dfp ! i = S (cluster_fingerprint example_env (ips c))))"
proof -
  have m: "1 \<le> CLUSTER_MIN_SIZE example_config"
    "CLUSTER_MIN_SIZE example_config \<le> CLUSTER_MAX_SIZE example_config"
    by (simp_all add: ex_cfg)
  note t = cluster_fingerprint_of_block [OF enrich_example example_rectangular m]
  have c: "\<lparr>cluster_id = 1, ips = [I 10]\<rparr> \<in> set (run_clusters example_run)"
    by (simp add: example_run_def)
  from t have "\<forall>c \<in> set (run_clusters example_run).
            run_fingerprints example_run (cluster_id c)
              = Some (cluster_fingerprint example_env (ips c)) \<and>
            cluster_fingerprint example_env (ips c)
              = ''fp_'' @ zfill 8 (str_nat (sha256_int example_env
                                             (join ''|'' (map py_str (ips c))) mod 10 ^ 8))"
    by (rule conjunct1)
  from bspec [OF this c] have
    "run_fingerprints example_run 1 = Some (cluster_fingerprint example_env [I 10]) \<and>
     cluster_fingerprint example_env [I 10]
       = ''fp_'' @ zfill 8 (str_nat (sha256_int example_env (join ''|'' (map py_str [I 10]))
                                     mod 10 ^ 8))"
    by simp
  moreover from t have "\<exists>ipc dfp. map_of (run_df example_run) ''ip'' = Some ipc \<and>
      map_of (run_df example_run) ''device_fingerprint'' = Some dfp \<and>
      (\<forall>i < nrows example_df. \<forall>c \<in> set (run_clusters example_run).
         ipc ! i \<in> set (ips c) \<longrightarrow> dfp ! i = S (cluster_fingerprint example_env (ips c)))"
    by (rule conjunct2)
  ultimately show ?thesis by (simp only: simp_thms)
qed

text \<open>
  C6 as stated fails: the two orderings \<open>[1, 2]\<close> and \<open>[2, 1]\<close> of one hub set are hashed
  as the different strings \<open>1|2\<close> and \<open>2|1\<close>, and a hash that tells the two strings
  apart gives two fingerprints.
\<close>

theorem fingerprint_order_counterexample:
  "set [I 1, I 2] = set [I 2, I 1] \<and>
   join ''|'' (map py_str [I 1, I 2]) = ''1|2'' \<and>
   join ''|'' (map py_str [I 2, I 1]) = ''2|1'' \<and>
   cluster_fingerprint probe_env [I 1, I 2] = ''fp_00000049'' \<and>
   cluster_fingerprint probe_env [I 2, I 1] = ''fp_00000050''"
  by (auto simp: cluster_fingerprint_def stable_hash_to_int_def probe_env_def str_int_def
      str_nat.simps zfill_def replicate_num)

section \<open>Failing runs\<close>

lemma example_input: "INPUT_CSV example_env = ''data/train_sample.csv''"
  by (simp add: INPUT_CSV_def ex_env)

lemma before_save_example:
  assumes "stdout_encodes H (reading_text example_env H)" "stdout_encodes H (rows_text 2)"
  shows "before_save example_config example_env H [''data/train_sample.csv'' \<mapsto> example_df]
           = Some (Inr example_out_df)"
proof -
  have ne: "example_df \<noteq> []" by (simp add: example_df_def)
  have n: "nrows example_df = 2" by (simp add: nrows_def example_df_def)
  have o: "run_df example_run = example_out_df" by (simp add: example_run_def)
  show ?thesis
    using assms
    by (simp add: before_save_def py_print_def read_csv_def example_input ne n
        example_rectangular enrich_example o)
qed

lemma summary_example: "summary example_host example_out_df = Inr ()"
proof -
  have p: "py_print example_host s = Inr ()" for s
    by (simp add: py_print_def example_host_def)
  show ?thesis
    by (simp add: summary_def p getcol_def example_out_df_def example_df_def Let_def)
qed

lemma ascii_host_fields:
  "stdout_encodes ascii_host (reading_text example_env ascii_host)"
  "stdout_encodes ascii_host (rows_text 2)"
  "\<not> stdout_encodes ascii_host (saved_text ascii_host)"
  "save_fault ascii_host = NoFault"
  by (simp_all add: ascii_host_def example_host_def reading_text_def rows_text_def
      saved_text_def example_input thousands.simps str_nat.simps)

text \<open>
  C8, as the code has it. A run that raises before the save of line 201 leaves the files
  as they were: so does a run on an absent input (\<^verbatim>\<open>FileNotFoundError\<close>), on an input that
  does not parse (\<^verbatim>\<open>ParserError\<close>), and one in which the enrichment raises, when the
  \<^verbatim>\<open>print\<close> calls before them pass, and a \<^verbatim>\<open>print\<close> that raises before the save. A failing
  run changes no file but the output file, and this one only after lines 83-197 have
  returned the frame to save: the run then fails in the save, which may leave a truncated
  file, or in a \<^verbatim>\<open>print\<close> after the save, and the saved file is complete.
\<close>

theorem failure_before_save_writes_nothing:
  "(before_save cfg E H fs = Some (Inl e) \<longrightarrow> main cfg E H fs = Some (Some e, fs)) \<and>
   (fs (INPUT_CSV E) = None \<and> stdout_encodes H (reading_text E H) \<longrightarrow>
        main cfg E H fs = Some (Some FileNotFoundError, fs)) \<and>
   (\<forall>t. fs (INPUT_CSV E) = Some t \<and> \<not> (t \<noteq> [] \<and> rectangular t) \<and>
        stdout_encodes H (reading_text E H) \<longrightarrow>
        main cfg E H fs = Some (Some ParserError, fs)) \<and>
   (\<forall>t err. fs (INPUT_CSV E) = Some t \<and> t \<noteq> [] \<and> rectangular t \<and>
        stdout_encodes H (reading_text E H) \<and> stdout_encodes H (rows_text (nrows t)) \<and>
        enrich cfg E t = Some (Inl err) \<longrightarrow> main cfg E H fs = Some (Some err, fs)) \<and>
   (main cfg E H fs = Some (Some e, fs') \<longrightarrow>
        fs' = fs \<or>
        (\<exists>df t. before_save cfg E H fs = Some (Inr df) \<and> fs' = fs(OUTPUT_CSV \<mapsto> t) \<and>
           (save_fault H = NoFault \<longrightarrow> t = df)))"
proof -
  have 1: "before_save cfg E H fs = Some (Inl e) \<longrightarrow> main cfg E H fs = Some (Some e, fs)"
    by (simp add: main_def)
  have 2: "fs (INPUT_CSV E) = None \<and> stdout_encodes H (reading_text E H) \<longrightarrow>
        main cfg E H fs = Some (Some FileNotFoundError, fs)"
    by (simp add: main_def before_save_def py_print_def read_csv_def)
  have 3: "\<forall>t. fs (INPUT_CSV E) = Some t \<and> \<not> (t \<noteq> [] \<and> rectangular t) \<and>
        stdout_encodes H (reading_text E H) \<longrightarrow>
        main cfg E H fs = Some (Some ParserError, fs)"
    by (auto simp: main_def before_save_def py_print_def read_csv_def)
  have 4: "\<forall>t err. fs (INPUT_CSV E) = Some t \<and> t \<noteq> [] \<and> rectangular t \<and>
        stdout_encodes H (reading_text E H) \<and> stdout_encodes H (rows_text (nrows t)) \<and>
        enrich cfg E t = Some (Inl err) \<longrightarrow> main cfg E H fs = Some (Some err, fs)"
    by (simp add: main_def before_save_def py_print_def read_csv_def)
  have 5: "main cfg E H fs = Some (Some e, fs') \<longrightarrow>
        fs' = fs \<or>
        (\<exists>df t. before_save cfg E H fs = Some (Inr df) \<and> fs' = fs(OUTPUT_CSV \<mapsto> t) \<and>
           (save_fault H = NoFault \<longrightarrow> t = df))"
  proof
    assume m: "main cfg E H fs = Some (Some e, fs')"
    show "fs' = fs \<or>
        (\<exists>df t. before_save cfg E H fs = Some (Inr df) \<and> fs' = fs(OUTPUT_CSV \<mapsto> t) \<and>
           (save_fault H = NoFault \<longrightarrow> t = df))"
    proof (cases "before_save cfg E H fs")
      case None
      with m show ?thesis by (simp add: main_def)
    next
      case (Some r)
      show ?thesis
      proof (cases r)
        case (Inl x)
        with Some m show ?thesis by (simp add: main_def)
      next
        case (Inr df)
        with Some m have "fs' = fs \<or> (\<exists>t. fs' = fs(OUTPUT_CSV \<mapsto> t) \<and>
           (save_fault H = NoFault \<longrightarrow> t = df))"
          by (auto simp: main_def to_csv_def split: fault.splits sum.splits)
        with Some Inr show ?thesis by blast
      qed
    qed
  qed
  from 1 2 3 4 5 show ?thesis by (intro conjI)
qed

theorem failure_before_save_writes_nothing_witness:
  "main example_config example_env example_host Map.empty
     = Some (Some FileNotFoundError, Map.empty) \<and>
   main example_config example_env example_host
     [''data/train_sample.csv'' \<mapsto> [(''ip'', [I 1]), (''app'', [])]]
     = Some (Some ParserError, [''data/train_sample.csv'' \<mapsto> [(''ip'', [I 1]), (''app'', [])]]) \<and>
   main example_config example_env example_host [''data/train_sample.csv'' \<mapsto> [(''app'', [I 1])]]
     = Some (Some (KeyError ''ip''), [''data/train_sample.csv'' \<mapsto> [(''app'', [I 1])]])"
proof -
  have p: "INPUT_CSV example_env = ''data/train_sample.csv''" by (rule example_input)
  have h: "stdout_encodes example_host = (\<lambda>s. True)" by (simp add: example_host_def)
  have k: "enrich example_config example_env [(''app'', [I 1])] = Some (Inl (KeyError ''ip''))"
    by (simp add: enrich_def base_enrichment_def nrows_def ex_seed ex_randint ALL_ADS_def
        setcol_def base_user_ids_def getcol_def Let_def)
  have 1: "main example_config example_env example_host Map.empty
     = Some (Some FileNotFoundError, Map.empty)"
    using failure_before_save_writes_nothing
        [where cfg = example_config and E = example_env and H = example_host
           and fs = Map.empty]
    by (simp add: h)
  have 2: "main example_config example_env example_host
             [''data/train_sample.csv'' \<mapsto> [(''ip'', [I 1]), (''app'', [])]]
     = Some (Some ParserError, [''data/train_sample.csv'' \<mapsto> [(''ip'', [I 1]), (''app'', [])]])"
    using failure_before_save_writes_nothing
        [where cfg = example_config and E = example_env and H = example_host
           and fs = "[''data/train_sample.csv'' \<mapsto> [(''ip'', [I 1]), (''app'', [])]]"]
    by (simp add: p h rectangular_def nrows_def)
  have 3: "main example_config example_env example_host
             [''data/train_sample.csv'' \<mapsto> [(''app'', [I 1])]]
     = Some (Some (KeyError ''ip''), [''data/train_sample.csv'' \<mapsto> [(''app'', [I 1])]])"
    using failure_before_save_writes_nothing
        [where cfg = example_config and E = example_env and H = example_host
           and fs = "[''data/train_sample.csv'' \<mapsto> [(''app'', [I 1])]]"] k
    by (simp add: p h rectangular_def nrows_def)
  from 1 2 3 show ?thesis by blast
qed

text \<open>
  C8 as stated fails. On a terminal whose encoding is ASCII the run on the example saves
  its frame and then raises \<^verbatim>\<open>UnicodeEncodeError\<close> in the \<^verbatim>\<open>print\<close> of line 202: a failing
  run, and the output file is there. With a write that fails on the way, the run raises
  \<^verbatim>\<open>OSError\<close> and leaves the truncated file.
\<close>

theorem failure_after_save_counterexample:
  "main example_config example_env ascii_host [''data/train_sample.csv'' \<mapsto> example_df]
     = Some (Some UnicodeEncodeError,
             [''data/train_sample.csv'' \<mapsto> example_df, OUTPUT_CSV \<mapsto> example_out_df]) \<and>
   main example_config example_env (example_host\<lparr>save_fault := WriteFault [(''ip'', [I 10])]\<rparr>)
     [''data/train_sample.csv'' \<mapsto> example_df]
     = Some (Some OSError,
             [''data/train_sample.csv'' \<mapsto> example_df, OUTPUT_CSV \<mapsto> [(''ip'', [I 10])]])"
proof -
  have 1: "main example_config example_env ascii_host [''data/train_sample.csv'' \<mapsto> example_df]
     = Some (Some UnicodeEncodeError,
             [''data/train_sample.csv'' \<mapsto> example_df, OUTPUT_CSV \<mapsto> example_out_df])"
    by (simp add: main_def before_save_example [OF ascii_host_fields(1,2)] to_csv_def
        py_print_def ascii_host_fields(3,4))
  let ?H = "example_host\<lparr>save_fault := WriteFault [(''ip'', [I 10])]\<rparr>"
  have h: "stdout_encodes ?H (reading_text example_env ?H)" "stdout_encodes ?H (rows_text 2)"
    by (simp_all add: example_host_def)
  have 2: "main example_config example_env ?H [''data/train_sample.csv'' \<mapsto> example_df]
     = Some (Some OSError,
             [''data/train_sample.csv'' \<mapsto> example_df, OUTPUT_CSV \<mapsto> [(''ip'', [I 10])]])"
    by (simp add: main_def before_save_example [OF h] to_csv_def)
  from 1 2 show ?thesis by (rule conjI)
qed

section \<open>Rows and columns of the saved frame\<close>

lemma col_len_setcol:
  "columns_of_length n df \<Longrightarrow> length v = n \<Longrightarrow> columns_of_length n (setcol df k v)"
  by (simp add: columns_of_length_def)

lemma col_len_loc_assign:
  "columns_of_length n df \<Longrightarrow> length ms = n \<Longrightarrow> columns_of_length n (loc_assign ms k vs df)"
  by (auto simp: columns_of_length_def map_of_loc_assign split: option.splits if_splits)

lemma col_len_loc_fill:
  "columns_of_length n df \<Longrightarrow> length ms = n \<Longrightarrow> columns_of_length n (loc_fill ms k v df)"
  by (simp add: loc_fill_def col_len_loc_assign)

lemma length_fold_update [simp]:
  "length (fold (\<lambda>(i, v) col. col[i := v]) zs c) = length c"
  by (induction zs arbitrary: c) auto

lemma col_len_index_assign:
  "columns_of_length n df \<Longrightarrow> columns_of_length n (index_assign idx k vs df)"
  by (auto simp: columns_of_length_def index_assign_def split: option.splits if_splits)

lemma override_rows_lengths:
  assumes "override_rows E P A F cid ms df g = Inr (df', g')"
    and "columns_of_length n df" "length ms = n"
  shows "columns_of_length n df'"
  using assms
  by (auto simp: override_rows_def Let_def split: sum.splits prod.splits
      intro!: col_len_index_assign col_len_loc_assign col_len_loc_fill)

lemma override_rows_names:
  assumes "override_rows E P A F cid ms df g = Inr (df', g')"
    and "{''ad_id'', ''user_id'', ''email'', ''country'', ''device_fingerprint'',
          ''fraud_cluster_id'', ''is_synthetic_fraud''} \<subseteq> set (map fst df)"
  shows "map fst df' = map fst df"
proof -
  from assms(1) obtain idx ctr uids ems fp ads where
    d: "df' = index_assign idx ''country'' ctr
          (loc_assign ms ''user_id'' uids
            (loc_assign ms ''email'' ems
              (loc_fill ms ''device_fingerprint'' fp
                (loc_assign ms ''ad_id'' ads
                  (loc_fill ms ''is_synthetic_fraud'' (B True)
                    (loc_fill ms ''fraud_cluster_id'' (I (int cid)) df))))))"
    by (auto simp: override_rows_def Let_def split: sum.splits prod.splits)
  from assms(2) have k: "''ad_id'' \<in> set (map fst df)" "''user_id'' \<in> set (map fst df)"
    "''email'' \<in> set (map fst df)" "''device_fingerprint'' \<in> set (map fst df)"
    "''fraud_cluster_id'' \<in> set (map fst df)" "''is_synthetic_fraud'' \<in> set (map fst df)"
    by blast+
  let ?d1 = "loc_fill ms ''fraud_cluster_id'' (I (int cid)) df"
  let ?d2 = "loc_fill ms ''is_synthetic_fraud'' (B True) ?d1"
  let ?d3 = "loc_assign ms ''ad_id'' ads ?d2"
  let ?d4 = "loc_fill ms ''device_fingerprint'' fp ?d3"
  let ?d5 = "loc_assign ms ''email'' ems ?d4"
  let ?d6 = "loc_assign ms ''user_id'' uids ?d5"
  have 1: "map fst ?d1 = map fst df" by (rule names_loc_fill [OF k(5)])
  have 2: "map fst ?d2 = map fst df"
    using names_loc_fill [of "''is_synthetic_fraud''" ?d1] k(6) by (simp only: 1)
  have 3: "map fst ?d3 = map fst df"
    using names_loc_assign [of "''ad_id''" ?d2] k(1) by (simp only: 2)
  have 4: "map fst ?d4 = map fst df"
    using names_loc_fill [of "''device_fingerprint''" ?d3] k(4) by (simp only: 3)
  have 5: "map fst ?d5 = map fst df"
    using names_loc_assign [of "''email''" ?d4] k(3) by (simp only: 4)
  have 6: "map fst ?d6 = map fst df"
    using names_loc_assign [of "''user_id''" ?d5] k(2) by (simp only: 5)
  show ?thesis by (simp only: d names_index_assign 6)
qed

lemma override_cluster_shape:
  assumes "override_cluster E P A F c df g = Inr (df', g')"
    and "map_of df ''ip'' = Some ipc" "length ipc = n" "columns_of_length n df"
    and "{''ad_id'', ''user_id'', ''email'', ''country'', ''device_fingerprint'',
          ''fraud_cluster_id'', ''is_synthetic_fraud''} \<subseteq> set (map fst df)"
  shows "map fst df' = map fst df \<and> columns_of_length n df'"
proof -
  from override_cluster_cases [OF assms(1,2)] show ?thesis
  proof (elim disjE conjE)
    assume "df' = df"
    with assms(4) show ?thesis by simp
  next
    assume r: "override_rows E P A F (cluster_id c) (isin ipc (set (ips c))) df g = Inr (df', g')"
    from override_rows_names [OF r assms(5)]
      override_rows_lengths [OF r assms(4)] assms(3)
    show ?thesis by simp
  qed
qed

lemma override_loop_shape:
  assumes "override_loop E P A F cs df g = Inr (df', g')"
    and "map_of df ''ip'' = Some ipc" "length ipc = n" "columns_of_length n df"
    and "{''ad_id'', ''user_id'', ''email'', ''country'', ''device_fingerprint'',
          ''fraud_cluster_id'', ''is_synthetic_fraud''} \<subseteq> set (map fst df)"
  shows "map fst df' = map fst df \<and> columns_of_length n df'"
  using assms
proof (induction cs arbitrary: df g)
  case Nil
  then show ?case by simp
next
  case (Cons c cs)
  from Cons.prems(1) obtain df1 g1 where
    step: "override_cluster E P A F c df g = Inr (df1, g1)"
    and rest: "override_loop E P A F cs df1 g1 = Inr (df', g')"
    by (auto split: sum.splits)
  from override_cluster_shape [OF step Cons.prems(2-5)]
  have s1: "map fst df1 = map fst df" "columns_of_length n df1" by simp_all
  have ip1: "map_of df1 ''ip'' = Some ipc"
    using override_cluster_frame [OF step, of "''ip''"] Cons.prems(2) by simp
  from Cons.prems(5) s1(1) have k1:
    "{''ad_id'', ''user_id'', ''email'', ''country'', ''device_fingerprint'',
      ''fraud_cluster_id'', ''is_synthetic_fraud''} \<subseteq> set (map fst df1)" by simp
  from Cons.IH [OF rest ip1 Cons.prems(3) s1(2) k1] s1(1) show ?case by simp
qed

section \<open>The saved file\<close>

lemma nrows_of_columns:
  assumes "columns_of_length n df" "df \<noteq> []"
  shows "nrows df = n"
proof -
  from assms(2) obtain k c rest where d: "df = (k, c) # rest" by (cases df) auto
  then have "map_of df k = Some c" by simp
  with assms(1) have "length c = n" by (simp add: columns_of_length_def)
  with d show ?thesis by (simp add: nrows_def)
qed

lemma main_success:
  assumes "main cfg E H fs = Some (None, fs')" "fs (INPUT_CSV E) = Some inp"
  shows "inp \<noteq> [] \<and> rectangular inp \<and>
         (\<exists>r. enrich cfg E inp = Some (Inr r) \<and> fs' = fs(OUTPUT_CSV \<mapsto> run_df r))"
proof -
  from assms(1) obtain df where b: "before_save cfg E H fs = Some (Inr df)"
    and t: "to_csv H df fs = (None, fs')"
    by (auto simp: main_def split: sum.splits option.splits prod.splits)
  from t have fs': "fs' = fs(OUTPUT_CSV \<mapsto> df)"
    by (auto simp: to_csv_def split: fault.splits)
  from b assms(2) have "inp \<noteq> [] \<and> rectangular inp \<and>
         (\<exists>r. enrich cfg E inp = Some (Inr r) \<and> df = run_df r)"
    by (auto simp: before_save_def read_csv_def split: sum.splits option.splits if_splits)
  with fs' show ?thesis by blast
qed

text \<open>
  C7, as the code has it. A run that returns saves a frame with the columns of the input
  in their order, followed by \<open>ad_id\<close>, \<open>user_id\<close>, \<open>country\<close>, \<open>device_fingerprint\<close>,
  \<open>connection_type\<close>, \<open>email\<close>, \<open>fraud_cluster_id\<close>, \<open>is_synthetic_fraud\<close> in this order
  (the order in which the script first assigns them; the input has no column of these
  names). The saved frame has as many rows as the input, every column holds one cell for
  each row, and the cells of the input columns are the cells read, row by row.
\<close>

theorem saved_frame:
  assumes "main cfg E H fs = Some (None, fs')" and "fs (INPUT_CSV E) = Some inp"
    and "set (map fst inp) \<inter> {''ad_id'', ''user_id'', ''country'', ''device_fingerprint'',
           ''connection_type'', ''email'', ''fraud_cluster_id'', ''is_synthetic_fraud''} = {}"
  shows "\<exists>out. fs' OUTPUT_CSV = Some out \<and>
           map fst out = map fst inp @ [''ad_id'', ''user_id'', ''country'',
             ''device_fingerprint'', ''connection_type'', ''email'', ''fraud_cluster_id'',
             ''is_synthetic_fraud''] \<and>
           nrows out = nrows inp \<and> columns_of_length (nrows inp) out \<and>
           (\<forall>k \<in> set (map fst inp). map_of out k = map_of inp k)"
proof -
  let ?n = "nrows inp"
  from main_success [OF assms(1,2)] obtain r where
    ne: "inp \<noteq> []" and rect: "rectangular inp"
    and run: "enrich cfg E inp = Some (Inr r)" and fs': "fs' = fs(OUTPUT_CSV \<mapsto> run_df r)"
    by blast
  let ?b = "run_base_df r"
  from enrich_unfold [OF run] obtain g1 g2 g5 g6 where
    b: "base_enrichment E inp (seed_rng E SEED) = Inr (?b, g1)"
    and sh: "select_hubs cfg E ?b g1 = Inr (run_hub_ips r, g2)"
    and lp: "override_loop E (run_email_pools r) (run_target_ads r) (run_fingerprints r)
      (run_clusters r)
      (setcol (setcol ?b ''fraud_cluster_id'' (replicate (nrows ?b) (I 0)))
         ''is_synthetic_fraud''
         (replicate (nrows (setcol ?b ''fraud_cluster_id'' (replicate (nrows ?b) (I 0))))
            (B False)))
      g5 = Inr (run_df r, g6)" by blast
  from base_enrichment_unfold [OF b] obtain ads uids ctr fps cts ems where
    l: "length ads = ?n" "length uids = ?n" "length ctr = ?n" "length fps = ?n"
       "length cts = ?n" "length ems = ?n"
    and d: "?b = setcol (setcol (setcol (setcol (setcol (setcol inp
                   ''ad_id'' (map S ads)) ''user_id'' (map S uids)) ''country'' (map S ctr))
                   ''device_fingerprint'' (map S fps)) ''connection_type'' (map S cts))
                   ''email'' (map S ems)" by blast
  have nin': "x \<notin> set (map fst inp)"
    if "x \<in> {''ad_id'', ''user_id'', ''country'', ''device_fingerprint'',
           ''connection_type'', ''email'', ''fraud_cluster_id'', ''is_synthetic_fraud''}" for x
    using assms(3) that by (meson disjoint_iff)
  have nin: "''ad_id'' \<notin> set (map fst inp)" "''user_id'' \<notin> set (map fst inp)"
    "''country'' \<notin> set (map fst inp)" "''device_fingerprint'' \<notin> set (map fst inp)"
    "''connection_type'' \<notin> set (map fst inp)" "''email'' \<notin> set (map fst inp)"
    "''fraud_cluster_id'' \<notin> set (map fst inp)" "''is_synthetic_fraud'' \<notin> set (map fst inp)"
    by (rule nin', simp)+
  have nb: "nrows ?b = ?n" by (subst d) (simp add: nrows_setcol l)
  have n2: "nrows (setcol ?b ''fraud_cluster_id'' (replicate ?n (I 0))) = ?n"
    by (simp add: nrows_setcol nb)
  let ?d3 = "setcol (setcol ?b ''fraud_cluster_id'' (replicate ?n (I 0)))
               ''is_synthetic_fraud'' (replicate ?n (B False))"
  from lp have lp': "override_loop E (run_email_pools r) (run_target_ads r) (run_fingerprints r)
      (run_clusters r) ?d3 g5 = Inr (run_df r, g6)" by (simp only: nb n2)
  have namesb: "map fst ?b = map fst inp @ [''ad_id'', ''user_id'', ''country'',
             ''device_fingerprint'', ''connection_type'', ''email'']"
    using nin by (subst d) (simp add: names_setcol)
  have names3: "map fst ?d3 = map fst inp @ [''ad_id'', ''user_id'', ''country'',
             ''device_fingerprint'', ''connection_type'', ''email'', ''fraud_cluster_id'',
             ''is_synthetic_fraud'']"
    using nin by (simp add: names_setcol namesb)
  have c0: "columns_of_length ?n inp"
    using rectangular_length [OF rect] by (simp add: columns_of_length_def)
  have cb: "columns_of_length ?n ?b"
    by (subst d) (intro col_len_setcol c0, simp_all add: l)
  have c3: "columns_of_length ?n ?d3"
    by (intro col_len_setcol cb) simp_all
  from select_hubs_ip [OF sh] obtain ipc where ip1: "map_of ?b ''ip'' = Some ipc" by blast
  then have ip3: "map_of ?d3 ''ip'' = Some ipc" by simp
  from cb ip1 have li: "length ipc = ?n" by (simp add: columns_of_length_def)
  have k3: "{''ad_id'', ''user_id'', ''email'', ''country'', ''device_fingerprint'',
          ''fraud_cluster_id'', ''is_synthetic_fraud''} \<subseteq> set (map fst ?d3)"
    by (simp only: names3) simp
  from override_loop_shape [OF lp' ip3 li c3 k3]
  have shape: "map fst (run_df r) = map fst ?d3" "columns_of_length ?n (run_df r)" by simp_all
  from shape(1) names3 have "run_df r \<noteq> []" by auto
  from nrows_of_columns [OF shape(2) this] have nout: "nrows (run_df r) = ?n" .
  have keep: "map_of (run_df r) k = map_of inp k" if k: "k \<in> set (map fst inp)" for k
  proof -
    from k nin' have k8: "k \<notin> {''ad_id'', ''user_id'', ''country'', ''device_fingerprint'',
           ''connection_type'', ''email'', ''fraud_cluster_id'', ''is_synthetic_fraud''}"
      by blast
    then have "k \<notin> {''ad_id'', ''user_id'', ''email'', ''country'', ''device_fingerprint'',
               ''fraud_cluster_id'', ''is_synthetic_fraud''}"
      and "k \<notin> {''ad_id'', ''user_id'', ''country'', ''device_fingerprint'',
               ''connection_type'', ''email''}" by simp_all
    from enrich_frame [OF run this(1)] base_enrichment_frame [OF b this(2)]
    show ?thesis by simp
  qed
  from fs' have "fs' OUTPUT_CSV = Some (run_df r)" by simp
  with shape names3 nout keep show ?thesis by (metis (no_types, lifting))
qed


lemma main_example:
  "main example_config example_env example_host [''data/train_sample.csv'' \<mapsto> example_df]
     = Some (None, [''data/train_sample.csv'' \<mapsto> example_df, OUTPUT_CSV \<mapsto> example_out_df])"
proof -
  have h: "stdout_encodes example_host (reading_text example_env example_host)"
    "stdout_encodes example_host (rows_text 2)" "save_fault example_host = NoFault"
    "stdout_encodes example_host (saved_text example_host)"
    by (simp_all add: example_host_def)
  show ?thesis
    by (simp add: main_def before_save_example [OF h(1,2)] to_csv_def h(3,4) py_print_def
        summary_example)
qed

theorem saved_frame_witness:
  "\<exists>out. [''data/train_sample.csv'' \<mapsto> example_df, OUTPUT_CSV \<mapsto> example_out_df] OUTPUT_CSV
            = Some out \<and>
     map fst out = map fst example_df @ [''ad_id'', ''user_id'', ''country'',
             ''device_fingerprint'', ''connection_type'', ''email'', ''fraud_cluster_id'',
             ''is_synthetic_fraud''] \<and>
     nrows out = nrows example_df \<and> columns_of_length (nrows example_df) out \<and>
     (\<forall>k \<in> set (map fst example_df). map_of out k = map_of example_df k)"
proof -
  have p: "INPUT_CSV example_env = ''data/train_sample.csv''"
    by (simp add: INPUT_CSV_def ex_env)
  have i: "[''data/train_sample.csv'' \<mapsto> example_df] (INPUT_CSV example_env) = Some example_df"
    by (simp add: p)
  have d: "set (map fst example_df) \<inter> {''ad_id'', ''user_id'', ''country'',
           ''device_fingerprint'', ''connection_type'', ''email'', ''fraud_cluster_id'',
           ''is_synthetic_fraud''} = {}"
    by (simp add: example_df_def)
  show ?thesis by (rule saved_frame [OF main_example i d])
qed

text \<open>
  C7 as stated fails on the column order: in the file the run on the example saves,
  \<open>email\<close> stands before \<open>fraud_cluster_id\<close> and \<open>is_synthetic_fraud\<close>, not after them.
\<close>

theorem column_order_counterexample:
  "main example_config example_env example_host [''data/train_sample.csv'' \<mapsto> example_df]
     = Some (None, [''data/train_sample.csv'' \<mapsto> example_df, OUTPUT_CSV \<mapsto> example_out_df]) \<and>
   map fst example_out_df
     = [''ip'', ''app'', ''device'', ''os'', ''channel'', ''click_time'', ''attributed_time'',
        ''is_attributed'', ''ad_id'', ''user_id'', ''country'', ''device_fingerprint'',
        ''connection_type'', ''email'', ''fraud_cluster_id'', ''is_synthetic_fraud''] \<and>
   map fst example_out_df
     \<noteq> map fst example_df @ [''ad_id'', ''user_id'', ''country'', ''device_fingerprint'',
          ''connection_type'', ''fraud_cluster_id'', ''is_synthetic_fraud'', ''email'']"
  using main_example by (simp add: example_out_df_def example_df_def)

section \<open>Two runs with one seed\<close>

lemma re_env:
  "sha256_int reordered_env = (\<lambda>s. 7)" "md5_hexdigest reordered_env = (\<lambda>s. s)"
  "str_set_slot reordered_env = (\<lambda>d x. if x = ''frauder000'' then 1 else 0)"
  "cell_set_slot reordered_env = (\<lambda>d x. 0)" "getenv reordered_env = Map.empty"
  by (simp_all add: reordered_env_def example_env_def)

lemma re_seed: "seed_rng reordered_env n = example_rng\<lparr>used := 0\<rparr>"
  by (simp add: seed_rng_def reordered_env_def example_env_def example_rng_def)

lemma re1: "base_enrichment reordered_env example_df (seed_rng reordered_env SEED)
   = Inr (example_base_df, example_rng\<lparr>used := 8\<rparr>)"
  by (simp add: base_enrichment_def re_env example_df_def example_base_df_def
     re_seed ex_randint
     nrows_def ALL_ADS_def COUNTRIES_def CONNECTION_TYPES_def domains_def
     base_user_ids_def base_fingerprints_def getcol_def setcol_def choice1_def
     gen_user_id_def gen_fingerprint_def stable_hash_to_int_def email_from_handle_def
     str_int_def str_nat.simps zfill_def cell_at_def
     numeral_2_eq_2 replicate_num Let_def)

lemma re2: "select_hubs example_config reordered_env example_base_df (example_rng\<lparr>used := 8\<rparr>)
   = Inr ([I 10], example_rng\<lparr>used := 9\<rparr>)"
proof -
  have "num_hub_ips (FRACTION_FRAUD_IPS script_config) 2 = Inr 1"
    using num_hub_ips_script [of 2] by simp
  then have f: "num_hub_ips (FRACTION_FRAUD_IPS example_config) (Suc (Suc 0)) = Inr (Suc 0)"
    by (simp add: example_config_def numeral_2_eq_2)
  show ?thesis
    by (simp add: select_hubs_def re_env
        example_base_df_def example_df_def getcol_def unique_def
        f ex_randint py_list_of_set_def Let_def)
qed

lemma re4: "dict_comprehension (\<lambda>c. build_email_pool reordered_env ''frauder'' 1)
     [\<lparr>cluster_id = 1, ips = [I 10]\<rparr>] Map.empty (example_rng\<lparr>used := 10\<rparr>)
   = Inr ([1 \<mapsto> reordered_pool], example_rng\<lparr>used := 13\<rparr>)"
  by (simp add: build_email_pool_def plus_variant_def dot_variant_def underscore_variant_def
      ex_randint re_env py_list_of_set_def unique_def reordered_pool_def
      str_nat.simps zfill_def replicate_num Let_def)

lemma re6: "fold (\<lambda>c d. d(cluster_id c \<mapsto> cluster_fingerprint reordered_env (ips c)))
     [\<lparr>cluster_id = 1, ips = [I 10]\<rparr>] Map.empty = [1 \<mapsto> ''fp_00000007'']"
  by (simp add: cluster_fingerprint_def stable_hash_to_int_def re_env
      str_nat.simps zfill_def replicate_num)

lemma re_sample: "sample_index reordered_env [0] = Inr []"
proof -
  have f: "\<lfloor>3 / 10 :: rat\<rfloor> = 0" by (simp add: floor_eq_iff)
  show ?thesis by (simp add: sample_index_def py_round_def f Let_def)
qed

lemma re7: "override_loop reordered_env [1 \<mapsto> reordered_pool] [1 \<mapsto> [''AD001'']]
     [1 \<mapsto> ''fp_00000007''] [\<lparr>cluster_id = 1, ips = [I 10]\<rparr>]
     (example_base_df @ [(''fraud_cluster_id'', [I 0, I 0]),
                         (''is_synthetic_fraud'', [B False, B False])])
     (example_rng\<lparr>used := 15\<rparr>)
   = Inr (reordered_out_df, example_rng\<lparr>used := 69\<rparr>)"
  by (simp add: override_cluster_def override_rows_def mask_any_def isin_def mask_sum_def
      masked_def mask_index_def loc_assign_def loc_fill_def index_assign_def lookup_def
      getcol_def setcol_def example_base_df_def reordered_out_df_def example_df_def
      reordered_pool_def fraud_domains_def COUNTRIES_def email_from_handle_def
      ex_handles re_sample ex_randint nth_append Let_def)

lemma enrich_reordered:
  "enrich example_config reordered_env example_df = Some (Inr reordered_run)"
  by (simp only: enrich_def ex_cfg re1 re2 ex3 re4 ex5 re6 ex_df3 re7 reordered_run_def
      Let_def sum.case prod.case option.case)

text \<open>
  C1 fails on the code. The two environments below differ in nothing but the order in
  which a set of strings is iterated, which an interpreter process fixes by its hash
  seed; the seed of the generator, the configuration and the input are the same. The
  pool of cluster 1 is \<^verbatim>\<open>list(set(pool))\<close> as the set yields it, no ordering is imposed
  on it, and the same draw takes a different handle from it: the two runs save
  different emails for the fraud row.
\<close>

theorem two_runs_one_seed_differ:
  "reordered_env = example_env\<lparr>str_set_slot := str_set_slot reordered_env\<rparr> \<and>
   enrich example_config example_env example_df = Some (Inr example_run) \<and>
   enrich example_config reordered_env example_df = Some (Inr reordered_run) \<and>
   run_email_pools example_run 1
     = Some [''frauder000'', ''frauder000+promo1'', ''f.rauder000'', ''f_rauder000''] \<and>
   run_email_pools reordered_run 1
     = Some [''frauder000+promo1'', ''f.rauder000'', ''f_rauder000'', ''frauder000''] \<and>
   map_of (run_df example_run) ''email''
     = Some [S ''frauder000@gmail.com'', S ''user000007@gmail.com''] \<and>
   map_of (run_df reordered_run) ''email''
     = Some [S ''frauder000+promo1@gmail.com'', S ''user000007@gmail.com''] \<and>
   run_df example_run \<noteq> run_df reordered_run"
  using enrich_example enrich_reordered
  by (simp add: reordered_env_def example_run_def reordered_run_def example_pool_def
      reordered_pool_def example_out_df_def reordered_out_df_def example_df_def)


end
